theory Spec2Isabelle
  imports Main "HOL-Library.Sublist"
begin

chapter \<open>The programs\<close>

section \<open>JavaScript strings\<close>

text \<open>
  A JavaScript string is modelled as a \<open>string\<close> (a list of \<open>char\<close>): one \<open>char\<close>
  per UTF-16 code unit, for code units below 256. The white space of \<open>String.prototype.trim\<close>
  and of the regular expression class \<open>\s\<close> is, in that range, TAB, LF, VT, FF, CR, SPACE and
  NBSP.
\<close>

definition is_ws :: "char \<Rightarrow> bool" where
  "is_ws c = (c = CHR 0x09 \<or> c = CHR 0x0A \<or> c = CHR 0x0B \<or> c = CHR 0x0C \<or> c = CHR 0x0D
              \<or> c = CHR 0x20 \<or> c = CHR 0xA0)"

text \<open>\<open>s.trim()\<close>\<close>

definition trim :: "string \<Rightarrow> string" where
  "trim s = rev (dropWhile is_ws (rev (dropWhile is_ws s)))"

text \<open>\<open>parts.join(sep)\<close>\<close>

fun join :: "string \<Rightarrow> string list \<Rightarrow> string" where
  "join sep [] = []"
| "join sep [x] = x"
| "join sep (x # y # ys) = x @ sep @ join sep (y # ys)"

section \<open>JavaScript values read from JSON\<close>

text \<open>
  The values \<open>JSON.parse\<close> returns. Numbers are modelled for integer literals only:
  \<open>JNum n\<close> is the number (a double) that the literal \<open>n\<close> denotes, the double nearest to
  \<open>n\<close>. A property that is absent (\<open>undefined\<close>) is \<open>None\<close> of \<open>json option\<close>. An object keeps
  its members in the order read; where a key is repeated the last member counts, as in
  JavaScript.
\<close>

datatype json =
    JNull
  | JBool bool
  | JNum int
  | JStr string
  | JArr "json list"
  | JObj "(string \<times> json) list"

text \<open>Truthiness, as tested by \<open>if (v)\<close>, \<open>!v\<close>, \<open>v && ...\<close> and \<open>v || ...\<close>.\<close>

fun truthy :: "json \<Rightarrow> bool" where
  "truthy JNull = False"
| "truthy (JBool b) = b"
| "truthy (JNum n) = (n \<noteq> 0)"
| "truthy (JStr s) = (s \<noteq> [])"
| "truthy (JArr xs) = True"
| "truthy (JObj kvs) = True"

definition truthy_opt :: "json option \<Rightarrow> bool" where
  "truthy_opt v = (case v of None \<Rightarrow> False | Some x \<Rightarrow> truthy x)"

text \<open>Property lookup in a member list: the last member with the key.\<close>

definition lookup :: "(string \<times> json) list \<Rightarrow> string \<Rightarrow> json option" where
  "lookup kvs k = map_of (rev kvs) k"

text \<open>
  \<open>v.k\<close> for a value \<open>v\<close> that is not \<open>null\<close> and a key \<open>k\<close> that is neither an index nor
  \<open>length\<close>: arrays, strings, numbers and booleans have no such property.
\<close>

fun get_prop :: "json \<Rightarrow> string \<Rightarrow> json option" where
  "get_prop (JObj kvs) k = lookup kvs k"
| "get_prop v k = None"

text \<open>The decimal text of a natural number: an array index as a property key.\<close>

definition digit_char :: "nat \<Rightarrow> char" where
  "digit_char d = char_of (of_char (CHR ''0'') + d)"

fun number_text :: "nat \<Rightarrow> string" where
  "number_text n =
     (if 10 \<le> n then number_text (n div 10) @ [digit_char (n mod 10)] else [digit_char n])"

subsection \<open>Numbers as strings\<close>

text \<open>
  \<open>String(x)\<close> for the number \<open>x\<close> that an integer literal denotes. The literal is rounded to
  the nearest double, a 53-bit significand times a power of two, ties going to the even
  significand; from \<open>2 ^ 1024\<close> on the double is \<open>Infinity\<close>.
\<close>

function decimal :: "int \<Rightarrow> string" where
  "decimal n =
     (if 10 \<le> n then decimal (n div 10) @ [digit_char (nat (n mod 10))]
      else [digit_char (nat n)])"
  by pat_completeness auto
termination
  by (relation "measure nat") auto

function bit_length :: "int \<Rightarrow> nat" where
  "bit_length n = (if n \<le> 0 then 0 else Suc (bit_length (n div 2)))"
  by pat_completeness auto
termination
  by (relation "measure nat") auto

definition to_double :: "int \<Rightarrow> int" where
  "to_double n =
     (if bit_length n \<le> 53 then n
      else
        let sh = bit_length n - 53;
            q = n div 2 ^ sh;
            r = n mod 2 ^ sh;
            half = 2 ^ (sh - 1)
        in (if half < r \<or> (r = half \<and> odd q) then q + 1 else q) * 2 ^ sh)"

text \<open>
  The digits printed for a double \<open>x\<close> are those of the decimal with the fewest significant
  digits that still denotes \<open>x\<close>, the one nearest to \<open>x\<close> if there are two. \<open>candidates x e\<close> are
  the multiples of \<open>10 ^ e\<close> next to \<open>x\<close> that denote \<open>x\<close>; \<open>shortest\<close> takes the largest
  \<open>e\<close> that has one.
\<close>

definition candidates :: "int \<Rightarrow> nat \<Rightarrow> int list" where
  "candidates x e =
     filter (\<lambda>c. 0 < c \<and> to_double c = x)
       [(x div 10 ^ e) * 10 ^ e, (x div 10 ^ e + 1) * 10 ^ e]"

fun shortest :: "int \<Rightarrow> nat \<Rightarrow> int" where
  "shortest x 0 = x"
| "shortest x (Suc e) =
     (case candidates x (Suc e) of
        [] \<Rightarrow> shortest x e
      | [c] \<Rightarrow> c
      | c # d # cs \<Rightarrow> if x - c \<le> d - x then c else d)"

text \<open>
  Up to 21 digits the number is printed in full, the digits found followed by zeros; beyond,
  as the first digit, the other significant digits after a point, and the exponent.
\<close>

definition double_text :: "int \<Rightarrow> string" where
  "double_text x =
     (if 2 ^ 1024 \<le> x then ''Infinity''
      else
        let ds = decimal (shortest x (length (decimal x)));
            sig = rev (dropWhile (\<lambda>c. c = CHR ''0'') (rev ds))
        in if length ds \<le> 21 then ds
           else hd sig # (if tl sig = [] then [] else CHR ''.'' # tl sig)
                @ ''e+'' @ decimal (int (length ds) - 1))"

definition number_to_string :: "int \<Rightarrow> string" where
  "number_to_string i =
     (if 0 \<le> i then double_text (to_double i)
      else CHR ''-'' # double_text (to_double (- i)))"

subsection \<open>Values as strings\<close>

text \<open>
  The string conversion applied by \<open>+\<close> with a string, by a template literal and by \<open>atob\<close>;
  \<open>None\<close> where it throws a \<open>TypeError\<close>. An array is its elements joined by commas, \<open>null\<close>
  elements giving the empty string. An object read from JSON has data properties only: one
  without a \<open>toString\<close> member of its own inherits \<open>Object.prototype.toString\<close> and is
  \<open>[object Object]\<close>; for one with such a member, the member is not callable and what
  \<open>valueOf\<close> gives is no primitive value, so the conversion throws.
\<close>

fun js_to_string :: "json \<Rightarrow> string option" where
  "js_to_string JNull = Some ''null''"
| "js_to_string (JBool b) = Some (if b then ''true'' else ''false'')"
| "js_to_string (JNum n) = Some (number_to_string n)"
| "js_to_string (JStr s) = Some s"
| "js_to_string (JArr xs) =
     map_option (join '','')
       (those (map (\<lambda>x. if x = JNull then Some [] else js_to_string x) xs))"
| "js_to_string (JObj kvs) =
     (if lookup kvs ''toString'' = None then Some ''[object Object]'' else None)"

definition js_to_string_opt :: "json option \<Rightarrow> string option" where
  "js_to_string_opt v = (case v of None \<Rightarrow> Some ''undefined'' | Some x \<Rightarrow> js_to_string x)"

subsection \<open>Parsing JSON\<close>

text \<open>
  \<open>JSON.parse\<close> is a parameter \<open>parse\<close> of the functions below (\<open>None\<close> where it throws): the
  general properties hold for every such function. For evaluating examples, \<open>json_parse\<close>
  implements the JSON grammar for texts whose numbers are integer literals and whose strings
  use no \<open>\u\<close> escape; it rejects other numbers and escapes, which \<open>JSON.parse\<close> does not, and
  no example uses one. The parser takes fuel, one unit per recursive call; of two nested
  calls at least one reads a character first, so twice the length of the text is enough.
\<close>

definition is_json_ws :: "char \<Rightarrow> bool" where
  "is_json_ws c = (c = CHR 0x20 \<or> c = CHR 0x09 \<or> c = CHR 0x0A \<or> c = CHR 0x0D)"

definition is_digit :: "char \<Rightarrow> bool" where
  "is_digit c = (48 \<le> (of_char c :: nat) \<and> (of_char c :: nat) \<le> 57)"

definition unescape :: "char \<Rightarrow> char option" where
  "unescape e =
     (if e = CHR 0x22 then Some (CHR 0x22)
      else if e = CHR 0x5C then Some (CHR 0x5C)
      else if e = CHR ''/'' then Some (CHR ''/'')
      else if e = CHR ''b'' then Some (CHR 0x08)
      else if e = CHR ''f'' then Some (CHR 0x0C)
      else if e = CHR ''n'' then Some (CHR 0x0A)
      else if e = CHR ''r'' then Some (CHR 0x0D)
      else if e = CHR ''t'' then Some (CHR 0x09)
      else None)"

text \<open>The characters of a string literal after its opening quote; \<open>esc\<close>: a backslash was read.\<close>

fun parse_chars :: "bool \<Rightarrow> string \<Rightarrow> string \<Rightarrow> (string \<times> string) option" where
  "parse_chars esc acc [] = None"
| "parse_chars True acc (c # cs) =
     (case unescape c of None \<Rightarrow> None | Some ch \<Rightarrow> parse_chars False (ch # acc) cs)"
| "parse_chars False acc (c # cs) =
     (if c = CHR 0x22 then Some (rev acc, cs)
      else if c = CHR 0x5C then parse_chars True acc cs
      else if (of_char c :: nat) < 32 then None
      else parse_chars False (c # acc) cs)"

definition digits_value :: "string \<Rightarrow> int" where
  "digits_value ds = foldl (\<lambda>n d. 10 * n + int (of_char d - 48)) 0 ds"

definition parse_number :: "string \<Rightarrow> (json \<times> string) option" where
  "parse_number s =
     (let neg = (s \<noteq> [] \<and> hd s = CHR ''-'');
          t = (if neg then tl s else s);
          ds = takeWhile is_digit t;
          r = dropWhile is_digit t
      in if ds = [] \<or> (hd ds = CHR ''0'' \<and> length ds > 1) then None
         else if r \<noteq> [] \<and> (hd r = CHR ''.'' \<or> hd r = CHR ''e'' \<or> hd r = CHR ''E'') then None
         else Some (JNum (if neg then - digits_value ds else digits_value ds), r))"

text \<open>
  One recursive-descent parser in three modes: a value; the rest of an array, after \<open>[\<close> or
  a comma; the rest of an object, after \<open>{\<close> or a comma.
\<close>

datatype parse_mode =
    AValue
  | Elements "json list"
  | Members "(string \<times> json) list"

primrec parse_json :: "nat \<Rightarrow> parse_mode \<Rightarrow> string \<Rightarrow> (json \<times> string) option" where
  "parse_json 0 m s = None"
| "parse_json (Suc k) m s =
     (let t = dropWhile is_json_ws s in
      case m of
        AValue \<Rightarrow>
          if t = [] then None
          else if hd t = CHR ''{'' then
            (let u = dropWhile is_json_ws (tl t) in
             if u \<noteq> [] \<and> hd u = CHR ''}'' then Some (JObj [], tl u)
             else parse_json k (Members []) u)
          else if hd t = CHR ''['' then
            (let u = dropWhile is_json_ws (tl t) in
             if u \<noteq> [] \<and> hd u = CHR '']'' then Some (JArr [], tl u)
             else parse_json k (Elements []) u)
          else if hd t = CHR 0x22 then
            (case parse_chars False [] (tl t) of
               None \<Rightarrow> None
             | Some (str, r) \<Rightarrow> Some (JStr str, r))
          else if prefix ''true'' t then Some (JBool True, drop 4 t)
          else if prefix ''false'' t then Some (JBool False, drop 5 t)
          else if prefix ''null'' t then Some (JNull, drop 4 t)
          else parse_number t
      | Elements acc \<Rightarrow>
          (case parse_json k AValue t of
             None \<Rightarrow> None
           | Some (v, r) \<Rightarrow>
               (let u = dropWhile is_json_ws r in
                if u \<noteq> [] \<and> hd u = CHR '','' then parse_json k (Elements (v # acc)) (tl u)
                else if u \<noteq> [] \<and> hd u = CHR '']'' then Some (JArr (rev (v # acc)), tl u)
                else None))
      | Members acc \<Rightarrow>
          if t = [] \<or> hd t \<noteq> CHR 0x22 then None
          else
            (case parse_chars False [] (tl t) of
               None \<Rightarrow> None
             | Some (key, r) \<Rightarrow>
                 (let u = dropWhile is_json_ws r in
                  if u = [] \<or> hd u \<noteq> CHR '':'' then None
                  else
                    (case parse_json k AValue (tl u) of
                       None \<Rightarrow> None
                     | Some (v, r') \<Rightarrow>
                         (let w = dropWhile is_json_ws r' in
                          if w \<noteq> [] \<and> hd w = CHR '',''
                          then parse_json k (Members ((key, v) # acc)) (tl w)
                          else if w \<noteq> [] \<and> hd w = CHR ''}''
                          then Some (JObj (rev ((key, v) # acc)), tl w)
                          else None)))))"

definition json_parse :: "string \<Rightarrow> json option" where
  "json_parse s =
     (case parse_json (Suc (length s + length s)) AValue s of
        None \<Rightarrow> None
      | Some (v, r) \<Rightarrow> if dropWhile is_json_ws r = [] then Some v else None)"

section \<open>Sentence extraction (chat-ui/hooks/useVoice.js)\<close>

definition is_terminator :: "char \<Rightarrow> bool" where
  "is_terminator c = (c = CHR ''.'' \<or> c = CHR ''!'' \<or> c = CHR ''?'')"

text \<open>
  \<open>slice.split(/([.!?])\s+/)\<close>: the string is scanned from the left; at a terminator that is
  followed by white space the text collected so far is emitted, then the captured terminator,
  and the whole run of white space is consumed. The text after the last separator is the last
  part (possibly empty). \<open>acc\<close> holds the current part, reversed.
\<close>

function split_terminators :: "string \<Rightarrow> string \<Rightarrow> string list" where
  "split_terminators acc [] = [rev acc]"
| "split_terminators acc (c # cs) =
     (if is_terminator c \<and> cs \<noteq> [] \<and> is_ws (hd cs)
      then rev acc # [c] # split_terminators [] (dropWhile is_ws cs)
      else split_terminators (c # acc) cs)"
  by pat_completeness auto
termination
  by (relation "measure (\<lambda>(acc, s). length s)")
     (auto simp: le_imp_less_Suc length_dropWhile_le)

text \<open>
  The loop of \<open>extractStableSentences\<close> over \<open>parts\<close>: an empty segment is skipped; any other
  segment is trimmed and appended to \<open>acc\<close>, after one space when \<open>acc\<close> is not empty; a segment
  that is exactly one terminator (\<open>/^[.!?]$/\<close>) closes the sentence.
\<close>

fun collect_sentences :: "string \<Rightarrow> string list \<Rightarrow> string list" where
  "collect_sentences acc [] = []"
| "collect_sentences acc (seg # segs) =
     (if seg = [] then collect_sentences acc segs
      else let acc' = acc @ (if acc \<noteq> [] then '' '' else []) @ trim seg in
        if length seg = 1 \<and> is_terminator (hd seg)
        then (let s = trim acc' in
              if s \<noteq> [] then s # collect_sentences [] segs else collect_sentences [] segs)
        else collect_sentences acc' segs)"

text \<open>
  \<open>extractStableSentences(text, startIndex)\<close> returns \<open>{ sentences, nextIndex }\<close>. The
  consumed length is computed from the sentences joined by one space, plus one space.
\<close>

definition extractStableSentences :: "string \<Rightarrow> nat \<Rightarrow> string list \<times> nat" where
  "extractStableSentences text startIndex =
     (let slice = drop startIndex text;
          parts = split_terminators [] slice
      in if length parts \<le> 1 then ([], startIndex)
         else let sentences = collect_sentences [] parts;
                  consumed = length (join '' '' sentences @ '' '')
              in (sentences, startIndex + consumed))"

text \<open>
  \<open>speakText\<close> calls the extractor on the text received so far, starting at the index stored
  for the message (\<open>lastSpokenIndexRef\<close>), enqueues the returned sentences and stores the
  returned index. \<open>speak_fragments text idx fs\<close> lists the sentences enqueued while the
  fragments \<open>fs\<close> arrive one by one after \<open>text\<close>. (The markdown clean-up that \<open>speakText\<close>
  applies first is the identity on text made of letters, terminators and single inner spaces,
  and is not modelled.)
\<close>

fun speak_fragments :: "string \<Rightarrow> nat \<Rightarrow> string list \<Rightarrow> string list" where
  "speak_fragments text idx [] = []"
| "speak_fragments text idx (f # fs) =
     (let text' = text @ f;
          r = extractStableSentences text' idx
      in fst r @ speak_fragments text' (snd r) fs)"

section \<open>Playback scheduler (frontend/src/hooks/useStreamingVoice.js)\<close>

text \<open>
  An entry of \<open>audioQueueRef.current\<close> is \<open>{ audio, audioUrl }\<close>. Every call of
  \<open>new Audio(audioUrl)\<close> creates a new element; \<open>clip_id\<close> is its identity (the number of
  elements created before it) and \<open>clip_data\<close> the base64 text it was built from.
\<close>

record clip =
  clip_id :: nat
  clip_data :: string

text \<open>
  The state of one \<open>useStreamingVoice\<close> instance: the React state \<open>isSpeaking\<close> and
  \<open>isMuted\<close>, the three refs, and what the browser holds for it: the number of audio elements
  \<open>created\<close>, the elements \<open>playing\<close> (\<open>play()\<close> was called and none of \<open>onended\<close>,
  \<open>onerror\<close>, the rejection handler of \<open>play()\<close> or \<open>pause()\<close> has run for it since), the
  log \<open>started\<close> of the clips passed to \<open>play()\<close>, in order, and the number \<open>timers\<close> of
  pending \<open>setTimeout(playNextInQueue, 200)\<close> callbacks.
\<close>

record scheduler =
  isSpeaking :: bool
  isMuted :: bool
  audioQueue :: "clip list"
  currentAudio :: "clip option"
  isProcessing :: bool
  created :: nat
  playing :: "nat list"
  started :: "clip list"
  timers :: nat

definition initial_scheduler :: scheduler where
  "initial_scheduler =
     \<lparr>isSpeaking = False, isMuted = False, audioQueue = [], currentAudio = None,
      isProcessing = False, created = 0, playing = [], started = [], timers = 0\<rparr>"

definition playNextInQueue :: "scheduler \<Rightarrow> scheduler" where
  "playNextInQueue s =
     (case audioQueue s of
        [] \<Rightarrow> s\<lparr>isSpeaking := False, currentAudio := None, isProcessing := False\<rparr>
      | c # rest \<Rightarrow>
          s\<lparr>audioQueue := rest, currentAudio := Some c, isSpeaking := True,
            playing := playing s @ [clip_id c], started := started s @ [c]\<rparr>)"

definition processAudioQueue :: "scheduler \<Rightarrow> scheduler" where
  "processAudioQueue s =
     (if isProcessing s then s else playNextInQueue (s\<lparr>isProcessing := True\<rparr>))"

text \<open>
  \<open>playAudio(audioBase64)\<close>. The function is built by \<open>useCallback(..., [isMuted])\<close>: it tests
  the \<open>isMuted\<close> of the render that built it, here the parameter \<open>muted\<close>; the function of the
  current render is \<open>playAudio decodes (isMuted s)\<close>. \<open>atob\<close> converts its argument to a string;
  \<open>decodes\<close> says for which strings it returns. Where the conversion or \<open>atob\<close> throws, the
  \<open>catch\<close> of \<open>playAudio\<close> logs the error and nothing has been queued.
\<close>

definition playAudio ::
  "(string \<Rightarrow> bool) \<Rightarrow> bool \<Rightarrow> json option \<Rightarrow> scheduler \<Rightarrow> scheduler" where
  "playAudio decodes muted audioBase64 s =
     (if muted then s
      else if \<not> truthy_opt audioBase64 then s
      else
        (case js_to_string_opt audioBase64 of
           None \<Rightarrow> s
         | Some b64 \<Rightarrow>
             if \<not> decodes b64 then s
             else
               let c = \<lparr>clip_id = created s, clip_data = b64\<rparr>;
                   s1 = s\<lparr>created := created s + 1, audioQueue := audioQueue s @ [c]\<rparr>
               in if \<not> isProcessing s1 then processAudioQueue s1 else s1))"

text \<open>
  The three completion handlers that \<open>playNextInQueue\<close> attaches to the clip it starts
  (\<open>audio.onended\<close>, \<open>audio.onerror\<close> and the \<open>catch\<close> of \<open>audio.play()\<close>) have the same body:
  revoke the URL, clear \<open>currentAudioRef\<close>, and schedule \<open>playNextInQueue\<close> 200 ms later. Only
  a clip that was started has them.
\<close>

definition clip_finished :: "nat \<Rightarrow> scheduler \<Rightarrow> scheduler" where
  "clip_finished i s =
     (if i \<in> clip_id ` set (started s)
      then s\<lparr>currentAudio := None, playing := removeAll i (playing s), timers := timers s + 1\<rparr>
      else s)"

text \<open>A pending timeout fires.\<close>

definition timer_fired :: "scheduler \<Rightarrow> scheduler" where
  "timer_fired s = (if timers s = 0 then s else playNextInQueue (s\<lparr>timers := timers s - 1\<rparr>))"

text \<open>
  \<open>stopSpeaking()\<close>, built by \<open>useCallback(..., [isMuted])\<close> as well: it unmutes when muted;
  otherwise it pauses the current clip, clears the queue and mutes.
\<close>

definition stopSpeaking :: "bool \<Rightarrow> scheduler \<Rightarrow> scheduler" where
  "stopSpeaking muted s =
     (if muted then s\<lparr>isMuted := False\<rparr>
      else
        s\<lparr>playing := (case currentAudio s of None \<Rightarrow> playing s
                        | Some c \<Rightarrow> removeAll (clip_id c) (playing s)),
          currentAudio := None, audioQueue := [], isProcessing := False,
          isSpeaking := False, isMuted := True\<rparr>)"

text \<open>
  What can happen to a scheduler, and a run over a sequence of such events. The calls of a run
  are made through the functions of the current render.
\<close>

datatype sched_event =
    PlayAudio "json option"
  | Ended nat
  | Errored nat
  | PlayRejected nat
  | TimerFired
  | StopSpeaking

fun sched_step :: "(string \<Rightarrow> bool) \<Rightarrow> scheduler \<Rightarrow> sched_event \<Rightarrow> scheduler" where
  "sched_step decodes s (PlayAudio a) = playAudio decodes (isMuted s) a s"
| "sched_step decodes s (Ended i) = clip_finished i s"
| "sched_step decodes s (Errored i) = clip_finished i s"
| "sched_step decodes s (PlayRejected i) = clip_finished i s"
| "sched_step decodes s TimerFired = timer_fired s"
| "sched_step decodes s StopSpeaking = stopSpeaking (isMuted s) s"

definition sched_run :: "(string \<Rightarrow> bool) \<Rightarrow> scheduler \<Rightarrow> sched_event list \<Rightarrow> scheduler" where
  "sched_run decodes s evs = foldl (sched_step decodes) s evs"

text \<open>
  \<open>atob\<close> returns for a string whose characters, ASCII white space removed, are base64
  characters, with at most two trailing \<open>=\<close> when the length is a multiple of four, and whose
  remaining length is not 1 modulo 4.
\<close>

definition is_base64_char :: "char \<Rightarrow> bool" where
  "is_base64_char c =
     (let n = (of_char c :: nat)
      in (65 \<le> n \<and> n \<le> 90) \<or> (97 \<le> n \<and> n \<le> 122) \<or> (48 \<le> n \<and> n \<le> 57)
         \<or> c = CHR ''+'' \<or> c = CHR ''/'')"

definition atob_returns :: "string \<Rightarrow> bool" where
  "atob_returns s =
     (let t = filter (\<lambda>c. \<not> (c = CHR 0x09 \<or> c = CHR 0x0A \<or> c = CHR 0x0C \<or> c = CHR 0x0D \<or> c = CHR 0x20)) s;
          u = (if length t mod 4 = 0 \<and> t \<noteq> [] \<and> last t = CHR ''=''
               then (if last (butlast t) = CHR ''='' then butlast (butlast t) else butlast t)
               else t)
      in length u mod 4 \<noteq> 1 \<and> list_all is_base64_char u)"

text \<open>
  Auxiliary notions for stating the scheduler's properties. \<open>completions evs\<close> lists the clips
  whose completion handlers run in \<open>evs\<close>, one entry per handler run.
\<close>

fun completion_of :: "sched_event \<Rightarrow> nat list" where
  "completion_of (Ended i) = [i]"
| "completion_of (Errored i) = [i]"
| "completion_of (PlayRejected i) = [i]"
| "completion_of ev = []"

definition completions :: "sched_event list \<Rightarrow> nat list" where
  "completions evs = concat (map completion_of evs)"

text \<open>
  While the queue is being processed exactly one of these holds: one clip is playing, or one
  timeout is pending. When it is not processed, nothing plays and no timeout is pending.
\<close>

definition sched_inv :: "scheduler \<Rightarrow> bool" where
  "sched_inv s =
     (if isProcessing s then length (playing s) + timers s = 1
      else playing s = [] \<and> timers s = 0)"

text \<open>None of the clips \<open>ids\<close> has completed yet: each is still playing or was never started.\<close>

definition pending_ok :: "scheduler \<Rightarrow> nat list \<Rightarrow> bool" where
  "pending_ok s ids =
     list_all (\<lambda>i. i \<notin> clip_id ` set (started s) \<or> i \<in> set (playing s)) ids"

text \<open>
  The clips that the \<open>playAudio\<close> calls of \<open>evs\<close> put into the queue of an unmuted scheduler,
  in call order, numbered from \<open>n\<close>.
\<close>

fun accepted_clips :: "(string \<Rightarrow> bool) \<Rightarrow> nat \<Rightarrow> sched_event list \<Rightarrow> clip list" where
  "accepted_clips d n [] = []"
| "accepted_clips d n (PlayAudio a # evs) =
     (case js_to_string_opt a of
        None \<Rightarrow> accepted_clips d n evs
      | Some b64 \<Rightarrow>
          if truthy_opt a \<and> d b64
          then \<lparr>clip_id = n, clip_data = b64\<rparr> # accepted_clips d (n + 1) evs
          else accepted_clips d n evs)"
| "accepted_clips d n (ev # evs) = accepted_clips d n evs"

text \<open>
  Undisturbed playback. \<open>play_out ids\<close>: each of the clips \<open>ids\<close> in turn ends, and the timeout
  its \<open>onended\<close> handler has set fires. \<open>playback s\<close> are these events for the clip playing in
  \<open>s\<close> and the clips of its queue, after the pending timeout when no clip is playing.
\<close>

fun play_out :: "nat list \<Rightarrow> sched_event list" where
  "play_out [] = []"
| "play_out (i # ids) = Ended i # TimerFired # play_out ids"

definition playback :: "scheduler \<Rightarrow> sched_event list" where
  "playback s =
     (if playing s = [] then [TimerFired] else [])
     @ play_out (playing s @ map clip_id (audioQueue s))"

text \<open>
  A scheduler in regular operation: the invariant above, a clip that is playing has been
  started, and a queue that is not being processed is empty.
\<close>

definition regular :: "scheduler \<Rightarrow> bool" where
  "regular s =
     (sched_inv s \<and> set (playing s) \<subseteq> clip_id ` set (started s)
      \<and> (isProcessing s \<or> audioQueue s = []))"

section \<open>Chats and messages\<close>

text \<open>
  The chat state both front ends keep with \<open>setChats\<close>: a list of chats, each with its
  messages. An assistant message accumulates \<open>text\<close> and \<open>attachments\<close>; \<open>msg_attachments\<close> is
  \<open>None\<close> while the message has no array there. The text of a message is a string (for which
  \<open>last.text || ''\<close> is the text itself). A state update \<open>setChats(prev => ...)\<close> is applied at
  once, in call order.
\<close>

record attachment =
  att_kind :: string
  att_name :: "json option"
  att_smiles :: "json option"

record message =
  msg_role :: string
  msg_text :: string
  msg_attachments :: "attachment list option"

record chat =
  chat_id :: nat
  chat_messages :: "message list"

text \<open>
  The update every handler applies through \<open>prev.map(c => ...)\<close>: chats other than the selected
  one are returned as they are; in the selected chat the last message is replaced by \<open>f\<close> of
  it, if there is a last message and its role is \<open>assistant\<close>.
\<close>

definition update_last :: "(message \<Rightarrow> message) \<Rightarrow> chat \<Rightarrow> chat" where
  "update_last f c =
     (if chat_messages c \<noteq> [] \<and> msg_role (last (chat_messages c)) = ''assistant''
      then c\<lparr>chat_messages := butlast (chat_messages c) @ [f (last (chat_messages c))]\<rparr>
      else c)"

definition update_selected :: "nat \<Rightarrow> (message \<Rightarrow> message) \<Rightarrow> chat list \<Rightarrow> chat list" where
  "update_selected selectedChatId f chats =
     map (\<lambda>c. if chat_id c \<noteq> selectedChatId then c else update_last f c) chats"

definition append_text :: "string \<Rightarrow> message \<Rightarrow> message" where
  "append_text t m = m\<lparr>msg_text := msg_text m @ t\<rparr>"

definition append_attachments :: "attachment list \<Rightarrow> message \<Rightarrow> message" where
  "append_attachments new m =
     m\<lparr>msg_attachments :=
         Some ((case msg_attachments m of None \<Rightarrow> [] | Some old \<Rightarrow> old) @ new)\<rparr>"

definition molecule :: "json option \<Rightarrow> json option \<Rightarrow> attachment" where
  "molecule n sm = \<lparr>att_kind = ''molecule'', att_name = n, att_smiles = sm\<rparr>"

section \<open>Event consumer (frontend/src/hooks/useSSEChat.js)\<close>

text \<open>
  \<open>s.split(sep)\<close> for a separator string: \<open>break_sep\<close> finds the leftmost occurrence of the
  separator and returns what stands before and after it.
\<close>

fun break_sep :: "string \<Rightarrow> string \<Rightarrow> (string \<times> string) option" where
  "break_sep sep [] = None"
| "break_sep sep (c # cs) =
     (if prefix sep (c # cs) then Some ([], drop (length sep) (c # cs))
      else (case break_sep sep cs of None \<Rightarrow> None | Some (a, b) \<Rightarrow> Some (c # a, b)))"

lemma break_sep_shorter:
  "break_sep sep s = Some (a, b) \<Longrightarrow> sep \<noteq> [] \<Longrightarrow> length b < length s"
  by (induction s arbitrary: a) (auto split: if_splits option.splits)

function split_str :: "string \<Rightarrow> string \<Rightarrow> string list" where
  "split_str sep s =
     (if sep = [] then map (\<lambda>c. [c]) s
      else (case break_sep sep s of None \<Rightarrow> [s] | Some (a, b) \<Rightarrow> a # split_str sep b))"
  by pat_completeness auto
termination
  by (relation "measure (\<lambda>(sep, s). length s)") (auto dest: break_sep_shorter)

definition blank_line :: string where
  "blank_line = [CHR 0x0A, CHR 0x0A]"

definition newline :: string where
  "newline = [CHR 0x0A]"

text \<open>
  A parsed event is the object \<open>{ type: eventType, ...data }\<close>, kept as its members in order;
  where a key is repeated the last member counts (\<open>lookup\<close>). \<open>spread\<close> lists the own
  properties that \<open>...data\<close> copies: the members of an object, the indexed elements of an
  array, the indexed characters of a string, nothing for a number or a boolean.
\<close>

type_synonym sse_event = "(string \<times> json) list"

fun spread :: "json \<Rightarrow> (string \<times> json) list" where
  "spread (JObj kvs) = kvs"
| "spread (JArr xs) = zip (map number_text [0..<length xs]) xs"
| "spread (JStr s) = zip (map number_text [0..<length s]) (map (\<lambda>c. JStr [c]) s)"
| "spread v = []"

text \<open>
  The loop of \<open>parseSSEEvent\<close> over the lines of a block. The state is \<open>(eventType, data)\<close>;
  \<open>data\<close> starts as \<open>null\<close>. Where \<open>JSON.parse\<close> throws, \<open>data\<close> becomes \<open>{ raw: dataStr }\<close>.
\<close>

definition data_value :: "(string \<Rightarrow> json option) \<Rightarrow> string \<Rightarrow> json" where
  "data_value parse dataStr =
     (case parse dataStr of Some v \<Rightarrow> v | None \<Rightarrow> JObj [(''raw'', JStr dataStr)])"

definition parse_line :: "(string \<Rightarrow> json option) \<Rightarrow> string \<times> json \<Rightarrow> string \<Rightarrow> string \<times> json" where
  "parse_line parse st line =
     (if prefix ''event:'' line then (trim (drop 6 line), snd st)
      else if prefix ''data:'' line then (fst st, data_value parse (trim (drop 5 line)))
      else st)"

definition parseSSEEvent :: "(string \<Rightarrow> json option) \<Rightarrow> string \<Rightarrow> sse_event option" where
  "parseSSEEvent parse eventBlock =
     (let st = foldl (parse_line parse) (''message'', JNull) (split_str newline eventBlock)
      in if truthy (snd st) then Some ((''type'', JStr (fst st)) # spread (snd st)) else None)"

text \<open>
  The callbacks \<open>onAudioEvent\<close> and \<open>onTextEvent\<close> act on a state \<open>'e\<close> of their own (the voice
  hooks); either may be absent. They are taken to return normally.
\<close>

record audio_event =
  ae_audio :: "json option"
  ae_sentenceId :: "json option"
  ae_text :: "json option"

record 'e callbacks =
  onAudioEvent :: "(audio_event \<Rightarrow> 'e \<Rightarrow> 'e) option"
  onTextEvent :: "(sse_event \<Rightarrow> 'e \<Rightarrow> 'e) option"

text \<open>A call returns or throws; either way it leaves a state behind.\<close>

datatype 'a outcome = Returned 'a | Thrown 'a

text \<open>\<open>event.content || ''\<close> of the \<open>text\<close> case.\<close>

definition content_of :: "sse_event \<Rightarrow> json" where
  "content_of event =
     (case lookup event ''content'' of
        None \<Rightarrow> JStr []
      | Some v \<Rightarrow> if truthy v then v else JStr [])"

text \<open>
  The annotation of the \<open>error\<close> case, \<open>`\n[Error: ${event.message}]`\<close>; \<open>None\<close> where the
  conversion of the message throws.
\<close>

definition errorMsg :: "sse_event \<Rightarrow> string option" where
  "errorMsg event =
     map_option (\<lambda>m. newline @ ''[Error: '' @ m @ '']'') (js_to_string_opt (lookup event ''message''))"

text \<open>
  \<open>handleSSEEvent\<close>. In the \<open>text\<close> case \<open>content.trim()\<close> is evaluated when \<open>onTextEvent\<close> is
  given; it throws a \<open>TypeError\<close> when \<open>content\<close> is not a string, after the state update has
  been queued. The update computes \<open>(last.text || '') + content\<close> when React runs it; if that
  conversion throws, the message keeps its text (what React does with a failing update is not
  modelled). In the \<open>error\<close> case the annotation is computed before the update is queued: if
  the conversion of the message throws, \<open>handleSSEEvent\<close> throws and nothing is updated.
\<close>

definition handleSSEEvent ::
  "nat \<Rightarrow> 'e callbacks \<Rightarrow> sse_event \<Rightarrow> chat list \<times> 'e \<Rightarrow> (chat list \<times> 'e) outcome" where
  "handleSSEEvent selectedChatId cbs event st =
     (let eventType = lookup event ''type''; chats = fst st; env = snd st in
      if eventType = Some (JStr ''text'') then
        (let content = content_of event;
             chats' = (case js_to_string content of
                         None \<Rightarrow> chats
                       | Some t \<Rightarrow> update_selected selectedChatId (append_text t) chats)
         in case onTextEvent cbs of
              None \<Rightarrow> Returned (chats', env)
            | Some cb \<Rightarrow>
                (case content of
                   JStr s \<Rightarrow> if trim s \<noteq> [] then Returned (chats', cb event env)
                             else Returned (chats', env)
                 | _ \<Rightarrow> Thrown (chats', env)))
      else if eventType = Some (JStr ''audio'') then
        (case onAudioEvent cbs of
           None \<Rightarrow> Returned st
         | Some cb \<Rightarrow>
             if truthy_opt (lookup event ''audio_base64'')
             then Returned (chats, cb \<lparr>ae_audio = lookup event ''audio_base64'',
                                       ae_sentenceId = lookup event ''sentence_id'',
                                       ae_text = lookup event ''text''\<rparr> env)
             else Returned st)
      else if eventType = Some (JStr ''molecule'') then
        Returned (update_selected selectedChatId
                    (append_attachments [molecule (lookup event ''name'') (lookup event ''smiles'')])
                    chats, env)
      else if eventType = Some (JStr ''complete'') \<or> eventType = Some (JStr ''done'') then
        Returned st
      else if eventType = Some (JStr ''error'') then
        (case errorMsg event of
           None \<Rightarrow> Thrown st
         | Some t \<Rightarrow> Returned (update_selected selectedChatId (append_text t) chats, env))
      else Returned st)"

text \<open>
  The body of \<open>for (const eventBlock of events)\<close>: a block that is blank after trimming is
  skipped, and so is one for which \<open>parseSSEEvent\<close> returns \<open>null\<close>.
\<close>

definition dispatch_block ::
  "(string \<Rightarrow> json option) \<Rightarrow> nat \<Rightarrow> 'e callbacks \<Rightarrow> string \<Rightarrow> chat list \<times> 'e
     \<Rightarrow> (chat list \<times> 'e) outcome" where
  "dispatch_block parse selectedChatId cbs eventBlock st =
     (if trim eventBlock = [] then Returned st
      else (case parseSSEEvent parse eventBlock of
              None \<Rightarrow> Returned st
            | Some event \<Rightarrow> handleSSEEvent selectedChatId cbs event st))"

fun dispatch_blocks ::
  "(string \<Rightarrow> json option) \<Rightarrow> nat \<Rightarrow> 'e callbacks \<Rightarrow> string list \<Rightarrow> chat list \<times> 'e
     \<Rightarrow> (chat list \<times> 'e) outcome" where
  "dispatch_blocks parse sel cbs [] st = Returned st"
| "dispatch_blocks parse sel cbs (b # bs) st =
     (case dispatch_block parse sel cbs b st of
        Returned st' \<Rightarrow> dispatch_blocks parse sel cbs bs st'
      | Thrown st' \<Rightarrow> Thrown st')"

text \<open>
  The read loop of \<open>sendMessage\<close> over the chunks the reader delivers (as the streaming
  \<open>TextDecoder\<close> decodes them), from the buffer \<open>buffer\<close>: the chunk is appended, the buffer is
  split at blank lines, the last piece is kept as the new buffer and the pieces before it are
  dispatched. The loop ends with the stream; an exception thrown by a handler leaves it for
  the \<open>catch\<close> of \<open>sendMessage\<close>.
\<close>

datatype 'a stream_result = StreamEnd string 'a | StreamAborted 'a

fun read_stream ::
  "(string \<Rightarrow> json option) \<Rightarrow> nat \<Rightarrow> 'e callbacks \<Rightarrow> string \<Rightarrow> chat list \<times> 'e \<Rightarrow> string list
     \<Rightarrow> (chat list \<times> 'e) stream_result" where
  "read_stream parse sel cbs buffer st [] = StreamEnd buffer st"
| "read_stream parse sel cbs buffer st (chunk # chunks) =
     (let events = split_str blank_line (buffer @ chunk) in
      case dispatch_blocks parse sel cbs (butlast events) st of
        Returned st' \<Rightarrow> read_stream parse sel cbs (last events) st' chunks
      | Thrown st' \<Rightarrow> StreamAborted st')"

declare split_str.simps [simp del]

text \<open>Auxiliary notions for stating the consumer's properties.\<close>

definition stream_result_of :: "string \<Rightarrow> 'a outcome \<Rightarrow> 'a stream_result" where
  "stream_result_of rest r =
     (case r of Returned st \<Rightarrow> StreamEnd rest st | Thrown st \<Rightarrow> StreamAborted st)"

text \<open>The lines of a block that set the data, and those that set the event name.\<close>

definition data_lines :: "string \<Rightarrow> string list" where
  "data_lines eventBlock = filter (prefix ''data:'') (split_str newline eventBlock)"

definition name_lines :: "string \<Rightarrow> string list" where
  "name_lines eventBlock = filter (prefix ''event:'') (split_str newline eventBlock)"

text \<open>The name a block declares: that of its last \<open>event:\<close> line, \<open>message\<close> without one.\<close>

definition declared_type :: "string \<Rightarrow> string" where
  "declared_type eventBlock =
     (if name_lines eventBlock = [] then ''message''
      else trim (drop 6 (last (name_lines eventBlock))))"

text \<open>The text after \<open>data:\<close> on the last data line of a block that has one.\<close>

definition last_data :: "string \<Rightarrow> string" where
  "last_data eventBlock = trim (drop 5 (last (data_lines eventBlock)))"

definition known_types :: "string list" where
  "known_types = [''text'', ''audio'', ''molecule'', ''complete'', ''done'', ''error'']"

text \<open>
  The wiring of \<open>AppShell\<close>: \<open>onAudioEvent\<close> calls \<open>voiceHook.playAudio(audioEvent.audio)\<close>, with
  the \<open>voiceHook\<close> of the render in which the message was sent (\<open>muted\<close> is its \<open>isMuted\<close>);
  \<open>onTextEvent\<close> speaks through the browser's speech synthesis in \<open>browser\<close> mode and does
  nothing to the scheduler.
\<close>

definition app_callbacks :: "(string \<Rightarrow> bool) \<Rightarrow> bool \<Rightarrow> scheduler callbacks" where
  "app_callbacks decodes muted =
     \<lparr>onAudioEvent = Some (\<lambda>audioEvent s. playAudio decodes muted (ae_audio audioEvent) s),
      onTextEvent = Some (\<lambda>textEvent s. s)\<rparr>"

text \<open>
  What an update may do to a message and to a chat when earlier output is kept: role and
  attachments are the same and the old text is a prefix of the new text; a chat keeps its id
  and its messages one by one.
\<close>

definition text_retained :: "message \<Rightarrow> message \<Rightarrow> bool" where
  "text_retained m m' =
     (msg_role m' = msg_role m \<and> msg_attachments m' = msg_attachments m
      \<and> prefix (msg_text m) (msg_text m'))"

definition chat_retained :: "chat \<Rightarrow> chat \<Rightarrow> bool" where
  "chat_retained c c' =
     (chat_id c' = chat_id c \<and> list_all2 text_retained (chat_messages c) (chat_messages c'))"

text \<open>The message being streamed: the last message of the selected chat, an assistant message.\<close>

definition streaming_into :: "nat \<Rightarrow> chat \<Rightarrow> bool" where
  "streaming_into selectedChatId c =
     (chat_id c = selectedChatId \<and> chat_messages c \<noteq> []
      \<and> msg_role (last (chat_messages c)) = ''assistant'')"

definition last_text :: "chat \<Rightarrow> string" where
  "last_text c = msg_text (last (chat_messages c))"

text \<open>
  The \<open>content\<close> of an event is text: a string, or absent, or falsy (then the handler takes
  the empty string). The frames of the wire protocol are of this kind.
\<close>

definition content_is_text :: "sse_event \<Rightarrow> bool" where
  "content_is_text event =
     (case lookup event ''content'' of
        None \<Rightarrow> True
      | Some (JStr s) \<Rightarrow> True
      | Some v \<Rightarrow> \<not> truthy v)"

text \<open>The \<open>message\<close> of an event can be printed: its conversion to a string does not throw.\<close>

definition message_prints :: "sse_event \<Rightarrow> bool" where
  "message_prints event = (errorMsg event \<noteq> None)"

definition frame_is_text :: "(string \<Rightarrow> json option) \<Rightarrow> string \<Rightarrow> bool" where
  "frame_is_text parse eventBlock =
     (case parseSSEEvent parse eventBlock of
        None \<Rightarrow> True
      | Some event \<Rightarrow> content_is_text event \<and> message_prints event)"

text \<open>
  Modelled from the spec: the producer is not among the sources. Its wire format (section 6
  of the spec) is one frame per event: \<open>event: name\<close>, a newline, \<open>data: json\<close> and a blank
  line, the name and the JSON text each on a single line. A frame is given here by its name
  and its data text.
\<close>

definition frame_body :: "string \<times> string \<Rightarrow> string" where
  "frame_body f = ''event: '' @ fst f @ newline @ ''data: '' @ snd f"

definition render_frame :: "string \<times> string \<Rightarrow> string" where
  "render_frame f = frame_body f @ blank_line"

definition single_line :: "string \<Rightarrow> bool" where
  "single_line s = (CHR 0x0A \<notin> set s)"

definition well_framed :: "(string \<times> string) list \<Rightarrow> bool" where
  "well_framed fs = list_all (\<lambda>f. single_line (fst f) \<and> single_line (snd f)) fs"

text \<open>A text with no blank line inside that does not end in a newline.\<close>

fun tight :: "string \<Rightarrow> bool" where
  "tight [] = True"
| "tight [c] = (c \<noteq> CHR 0x0A)"
| "tight (c # d # cs) = (\<not> (c = CHR 0x0A \<and> d = CHR 0x0A) \<and> tight (d # cs))"

text \<open>What the frame parser makes of a frame of the producer, and the handlers run in a row.\<close>

definition frame_event :: "(string \<Rightarrow> json option) \<Rightarrow> string \<times> string \<Rightarrow> sse_event option" where
  "frame_event parse f =
     (let data = data_value parse (trim (snd f))
      in if truthy data then Some ((''type'', JStr (trim (fst f))) # spread data) else None)"

fun handle_events ::
  "nat \<Rightarrow> 'e callbacks \<Rightarrow> sse_event list \<Rightarrow> chat list \<times> 'e \<Rightarrow> (chat list \<times> 'e) outcome" where
  "handle_events sel cbs [] st = Returned st"
| "handle_events sel cbs (event # events) st =
     (case handleSSEEvent sel cbs event st of
        Returned st' \<Rightarrow> handle_events sel cbs events st'
      | Thrown st' \<Rightarrow> Thrown st')"

section \<open>Structured payloads in the stream (chat-ui/hooks/useChatStream.js)\<close>

text \<open>
  A global regular expression is run over a text from the left: where it matches, the match
  is taken and the search goes on behind it; where it does not, the search moves on by one
  character. \<open>match\<close> tries the expression at the head of a text and returns the matched text
  with its first group. \<open>k\<close> counts the characters of the last match still to be passed.
\<close>

fun scan_matches ::
  "(string \<Rightarrow> (string \<times> string) option) \<Rightarrow> nat \<Rightarrow> string \<Rightarrow> (string \<times> string) list" where
  "scan_matches match k [] = []"
| "scan_matches match (Suc k) (c # cs) = scan_matches match k cs"
| "scan_matches match 0 (c # cs) =
     (case match (c # cs) of
        None \<Rightarrow> scan_matches match 0 cs
      | Some m \<Rightarrow> m # scan_matches match (length (fst m) - 1) cs)"

text \<open>\<open>text.replace(re, '')\<close> for such an expression: the matches are left out.\<close>

fun strip_matches :: "(string \<Rightarrow> (string \<times> string) option) \<Rightarrow> nat \<Rightarrow> string \<Rightarrow> string" where
  "strip_matches match k [] = []"
| "strip_matches match (Suc k) (c # cs) = strip_matches match k cs"
| "strip_matches match 0 (c # cs) =
     (case match (c # cs) of
        None \<Rightarrow> c # strip_matches match 0 cs
      | Some m \<Rightarrow> strip_matches match (length (fst m) - 1) cs)"

definition fence :: string where
  "fence = [CHR 0x60, CHR 0x60, CHR 0x60]"

definition tool_key :: string where
  "tool_key = [CHR 0x22, CHR ''t'', CHR ''o'', CHR ''o'', CHR ''l'', CHR 0x22]"

definition contains :: "string \<Rightarrow> string \<Rightarrow> bool" where
  "contains needle s = (break_sep needle s \<noteq> None)"

text \<open>
  The tool expression, a fence, an optional \<open>json\<close>, white space, the group
  \<open>\{[^}]*"tool"[^}]*\}\<close>, white space and a fence, at the head of \<open>s\<close>. No choice is open
  while matching: \<open>json\<close> must be taken when it is there, the white space runs to the brace,
  the group ends at the first closing brace and must contain the quoted word \<open>tool\<close>.
\<close>

definition match_tool :: "string \<Rightarrow> (string \<times> string) option" where
  "match_tool s =
     (if \<not> prefix fence s then None
      else
        let r0 = drop 3 s;
            r1 = (if prefix ''json'' r0 then drop 4 r0 else r0);
            r2 = dropWhile is_ws r1
        in if r2 = [] \<or> hd r2 \<noteq> CHR ''{'' then None
           else
             let body = takeWhile (\<lambda>c. c \<noteq> CHR ''}'') (tl r2);
                 r3 = dropWhile (\<lambda>c. c \<noteq> CHR ''}'') (tl r2)
             in if r3 = [] \<or> \<not> contains tool_key body then None
                else
                  let r4 = dropWhile is_ws (tl r3)
                  in if \<not> prefix fence r4 then None
                     else Some (take (length s - length (drop 3 r4)) s,
                                CHR ''{'' # body @ ''}''))"

text \<open>
  The event expression \<open>\[EVENT\](\{[^\n]+\})\<close> at the head of \<open>s\<close>: the group runs to the last
  closing brace of the line, with at least one character between the braces.
\<close>

definition match_event :: "string \<Rightarrow> (string \<times> string) option" where
  "match_event s =
     (if \<not> prefix ''[EVENT]{'' s then None
      else
        let line = takeWhile (\<lambda>c. c \<noteq> CHR 0x0A) (drop 8 s);
            inner = rev (dropWhile (\<lambda>c. c \<noteq> CHR ''}'') (rev line))
        in if length inner < 2 then None
           else Some (''[EVENT]{'' @ inner, CHR ''{'' # inner))"

text \<open>The expression that hides event markers, \<open>\[EVENT\]\{[^\n]+\}\n?\<close>: one newline more.\<close>

definition match_event_line :: "string \<Rightarrow> (string \<times> string) option" where
  "match_event_line s =
     (case match_event s of
        None \<Rightarrow> None
      | Some m \<Rightarrow>
          if prefix newline (drop (length (fst m)) s) then Some (fst m @ newline, snd m)
          else Some m)"

definition tool_matches :: "string \<Rightarrow> (string \<times> string) list" where
  "tool_matches buffer = scan_matches match_tool 0 buffer"

definition event_matches :: "string \<Rightarrow> (string \<times> string) list" where
  "event_matches buffer = scan_matches match_event 0 buffer"

text \<open>
  The attachments a parsed payload asks for: one per truthy item with a truthy name when
  \<open>items\<close> is an array, else one when \<open>name\<close> is truthy.
\<close>

definition item_attachment :: "json \<Rightarrow> attachment list" where
  "item_attachment it =
     (if truthy it \<and> truthy_opt (get_prop it ''name'')
      then [molecule (get_prop it ''name'') (get_prop it ''smiles'')] else [])"

definition payload_attachments :: "json \<Rightarrow> attachment list" where
  "payload_attachments obj =
     (case get_prop obj ''items'' of
        Some (JArr items) \<Rightarrow> concat (map item_attachment items)
      | _ \<Rightarrow> if truthy_opt (get_prop obj ''name'')
             then [molecule (get_prop obj ''name'') (get_prop obj ''smiles'')] else [])"

text \<open>
  The body of the loop over the tool matches. The state is the seen sets (per chat, as lists)
  and \<open>toAttach\<close>. A match whose text was seen is passed over; \<open>JSON.parse\<close> throwing, or
  \<open>obj.tool\<close> throwing on \<open>null\<close>, is caught by the \<open>try\<close> around the body.
\<close>

definition tool_step ::
  "(string \<Rightarrow> json option) \<Rightarrow> nat \<Rightarrow> (nat \<Rightarrow> string list) \<times> attachment list \<Rightarrow> string \<times> string
     \<Rightarrow> (nat \<Rightarrow> string list) \<times> attachment list" where
  "tool_step parse selectedId st m =
     (let seen = fst st; toAttach = snd st; fullMatch = fst m in
      if fullMatch \<in> set (seen selectedId) then st
      else
        (case parse (snd m) of
           None \<Rightarrow> st
         | Some obj \<Rightarrow>
             if obj = JNull then st
             else if get_prop obj ''tool'' = Some (JStr ''draw_molecule'')
             then (seen(selectedId := fullMatch # seen selectedId),
                   toAttach @ payload_attachments obj)
             else st))"

text \<open>The body of the loop over the event matches: no seen set here.\<close>

definition event_step ::
  "(string \<Rightarrow> json option) \<Rightarrow> nat \<Rightarrow> chat list \<Rightarrow> string \<times> string \<Rightarrow> chat list" where
  "event_step parse selectedId chats m =
     (case parse (snd m) of
        None \<Rightarrow> chats
      | Some evt \<Rightarrow>
          if evt = JNull then chats
          else if get_prop evt ''type'' = Some (JStr ''molecule'')
          then update_selected selectedId (append_attachments (payload_attachments evt)) chats
          else chats)"

text \<open>\<open>processStreamChunk\<close>, on the matches found in the buffer and on the buffer itself.\<close>

definition process_matches ::
  "(string \<Rightarrow> json option) \<Rightarrow> nat \<Rightarrow> (string \<times> string) list \<Rightarrow> (string \<times> string) list
     \<Rightarrow> chat list \<times> (nat \<Rightarrow> string list) \<Rightarrow> chat list \<times> (nat \<Rightarrow> string list)" where
  "process_matches parse selectedId tools events st =
     (let r = foldl (tool_step parse selectedId) (snd st, []) tools;
          chats1 = (if snd r = [] then fst st
                    else update_selected selectedId (append_attachments (snd r)) (fst st))
      in (foldl (event_step parse selectedId) chats1 events, fst r))"

definition processStreamChunk ::
  "(string \<Rightarrow> json option) \<Rightarrow> string \<Rightarrow> nat
     \<Rightarrow> chat list \<times> (nat \<Rightarrow> string list) \<Rightarrow> chat list \<times> (nat \<Rightarrow> string list)" where
  "processStreamChunk parse buffer selectedId st =
     process_matches parse selectedId (tool_matches buffer) (event_matches buffer) st"

text \<open>
  The state of the streaming loop of \<open>sendMessage\<close>: the text accumulated so far, the chats,
  and the two refs, \<open>seenToolMatchesRef\<close> and \<open>lastProcessedLenRef\<close>, both keyed by chat. One
  step per chunk read: an empty chunk is passed over; otherwise the chunk is accumulated, the
  whole accumulated text is scanned, and the new text, with the tool fences and event markers
  that lie within it removed, is appended to the message.
\<close>

record stream_state =
  accumulated :: string
  st_chats :: "chat list"
  seenToolMatches :: "nat \<Rightarrow> string list"
  lastProcessedLen :: "nat \<Rightarrow> nat"

definition on_fragment ::
  "(string \<Rightarrow> json option) \<Rightarrow> nat \<Rightarrow> stream_state \<Rightarrow> string \<Rightarrow> stream_state" where
  "on_fragment parse selectedChatId st chunk =
     (if chunk = [] then st
      else
        let acc = accumulated st @ chunk;
            delta = drop (lastProcessedLen st selectedChatId) acc;
            r = processStreamChunk parse acc selectedChatId (st_chats st, seenToolMatches st);
            st1 = st\<lparr>accumulated := acc, st_chats := fst r, seenToolMatches := snd r,
                     lastProcessedLen := (lastProcessedLen st)(selectedChatId := length acc)\<rparr>;
            displayDelta = strip_matches match_event_line 0 (strip_matches match_tool 0 delta)
        in if delta = [] \<or> displayDelta = [] then st1
           else st1\<lparr>st_chats := update_selected selectedChatId (append_text displayDelta) (fst r)\<rparr>)"

definition stream_start :: "chat list \<Rightarrow> stream_state" where
  "stream_start chats =
     \<lparr>accumulated = [], st_chats = chats, seenToolMatches = (\<lambda>c. []), lastProcessedLen = (\<lambda>c. 0)\<rparr>"

definition stream_fragments ::
  "(string \<Rightarrow> json option) \<Rightarrow> nat \<Rightarrow> stream_state \<Rightarrow> string list \<Rightarrow> stream_state" where
  "stream_fragments parse selectedChatId st chunks = foldl (on_fragment parse selectedChatId) st chunks"

text \<open>
  The attachments and the text of the last message of the first chat: in the examples, the
  message being streamed.
\<close>

definition shown_attachments :: "stream_state \<Rightarrow> attachment list option" where
  "shown_attachments st = msg_attachments (last (chat_messages (hd (st_chats st))))"

definition shown_text :: "stream_state \<Rightarrow> string" where
  "shown_text st = last_text (hd (st_chats st))"

section \<open>Example states\<close>

text \<open>States used in the examples.\<close>

definition example_chats :: "chat list" where
  "example_chats =
     [\<lparr>chat_id = 1,
       chat_messages =
         [\<lparr>msg_role = ''user'', msg_text = ''q'', msg_attachments = None\<rparr>,
          \<lparr>msg_role = ''assistant'', msg_text = ''Hi'', msg_attachments = None\<rparr>]\<rparr>]"

text \<open>A scheduler playing clip 0 with clips 1 and 2 queued.\<close>

definition example_scheduler :: scheduler where
  "example_scheduler =
     \<lparr>isSpeaking = True, isMuted = False,
      audioQueue = [\<lparr>clip_id = 1, clip_data = ''BBBB''\<rparr>, \<lparr>clip_id = 2, clip_data = ''CCCC''\<rparr>],
      currentAudio = Some \<lparr>clip_id = 0, clip_data = ''AAAA''\<rparr>, isProcessing = True,
      created = 3, playing = [0], started = [\<lparr>clip_id = 0, clip_data = ''AAAA''\<rparr>],
      timers = 0\<rparr>"

chapter \<open>Properties\<close>

section \<open>Values as strings: examples\<close>

text \<open>
  Integers up to \<open>2 ^ 53\<close> are printed as they are. Beyond, the literal is rounded to a double
  and the shortest decimal that denotes this double is printed; from \<open>10 ^ 21\<close> on with an
  exponent.
\<close>

lemma number_to_string_examples:
  "number_to_string 0 = ''0''"
  "number_to_string 42 = ''42''"
  "number_to_string (- 7) = ''-7''"
  "number_to_string 9007199254740993 = ''9007199254740992''"
  "number_to_string 12345678901234567890 = ''12345678901234567000''"
  "number_to_string 1000000000000000000000 = ''1e+21''"
  "number_to_string 123456789012345678901234 = ''1.2345678901234569e+23''"
  by code_simp+

lemma js_to_string_examples:
  "js_to_string (JArr [JNum 1, JNull, JArr [JStr ''a'', JBool True]]) = Some ''1,,a,true''"
  "js_to_string (JObj [(''message'', JStr ''x'')]) = Some ''[object Object]''"
  "js_to_string (JObj [(''toString'', JNum 1)]) = None"
  "js_to_string (JArr [JObj [(''toString'', JNull)]]) = None"
  "js_to_string_opt None = Some ''undefined''"
  by code_simp+

section \<open>Properties of the sentence extractor\<close>

text \<open>
  Claim C5. The spec's scenario: the text \<open>Benzene is a ring. It has six carbons. \<close> gives two
  sentences, \<open>Benzene is a ring.\<close> and \<open>It has six carbons.\<close>. The extractor returns two
  sentences, but each with a space before its terminator, because the loop joins every segment
  to a non-empty accumulator with a space, the captured terminator included.
\<close>

theorem C5_scenario_sentences:
  "extractStableSentences ''Benzene is a ring. It has six carbons. '' 0
     = ([''Benzene is a ring .'', ''It has six carbons .''], 41)"
  by (simp add: extractStableSentences_def is_terminator_def is_ws_def trim_def)

text \<open>
  Claim C4. Fragmentation invariance: feeding a text in fragments, carrying the returned index,
  gives the same sentences as one call on the whole text. It fails: the returned index counts
  the inserted space of every sentence, so it runs ahead of the text consumed, and the next
  call starts inside the next sentence. For the fragments \<open>Hi. Yo\<close> and \<open>u. Ok\<close> the second
  sentence loses its first letter.
\<close>

theorem C4_fragments_lose_text:
  "speak_fragments [] 0 [''Hi. Yo'', ''u. Ok''] = [''Hi .'', ''ou .'']
   \<and> speak_fragments [] 0 [''Hi. You. Ok''] = [''Hi .'', ''You .'']"
  by (simp add: extractStableSentences_def is_terminator_def is_ws_def trim_def)

section \<open>Properties of the playback scheduler\<close>

lemma one_playing:
  "length xs + (t::nat) = Suc 0 \<Longrightarrow> i \<in> set xs \<Longrightarrow> xs = [i] \<and> t = 0"
  by (cases xs) auto

lemma none_playing:
  "length xs + (t::nat) = Suc 0 \<Longrightarrow> 0 < t \<Longrightarrow> xs = [] \<and> t = 1"
  by (cases xs) auto

lemma sched_inv_playNext:
  "isProcessing s \<Longrightarrow> playing s = [] \<Longrightarrow> timers s = 0 \<Longrightarrow> sched_inv (playNextInQueue s)"
  by (auto simp: sched_inv_def playNextInQueue_def split: list.splits)

lemma sched_inv_playAudio: "sched_inv s \<Longrightarrow> sched_inv (playAudio d m a s)"
  by (auto simp: playAudio_def processAudioQueue_def Let_def sched_inv_def playNextInQueue_def
      split: list.splits if_splits option.splits)

lemma sched_inv_timer: "sched_inv s \<Longrightarrow> sched_inv (timer_fired s)"
proof (cases "timers s = 0")
  case True
  then show "sched_inv s \<Longrightarrow> sched_inv (timer_fired s)" by (simp add: timer_fired_def)
next
  case False
  assume "sched_inv s"
  with False have "isProcessing s" "playing s = []" "timers s = 1"
    by (auto simp: sched_inv_def split: if_splits dest: none_playing)
  then show "sched_inv (timer_fired s)"
    using False by (simp add: timer_fired_def sched_inv_playNext)
qed

lemma sched_inv_finished:
  "sched_inv s \<Longrightarrow> i \<notin> clip_id ` set (started s) \<or> i \<in> set (playing s)
   \<Longrightarrow> sched_inv (clip_finished i s)"
  by (auto simp: clip_finished_def sched_inv_def split: if_splits dest: one_playing)

lemma pending_ok_playAudio: "pending_ok s ids \<Longrightarrow> pending_ok (playAudio d m a s) ids"
  by (auto simp: pending_ok_def list_all_iff playAudio_def processAudioQueue_def Let_def
      playNextInQueue_def split: list.splits option.splits)

lemma pending_ok_timer: "pending_ok s ids \<Longrightarrow> pending_ok (timer_fired s) ids"
  by (auto simp: pending_ok_def list_all_iff timer_fired_def playNextInQueue_def
      split: list.splits)

lemma pending_ok_finished:
  "sched_inv s \<Longrightarrow> pending_ok s (i # ids) \<Longrightarrow> i \<notin> set ids
   \<Longrightarrow> pending_ok (clip_finished i s) ids"
  by (auto simp: pending_ok_def list_all_iff clip_finished_def sched_inv_def
      split: if_splits dest: one_playing)

text \<open>
  As long as \<open>stopSpeaking\<close> is not called and no clip runs more than one of its completion
  handlers, the invariant is kept.
\<close>

lemma sched_run_inv:
  "sched_inv s \<Longrightarrow> StopSpeaking \<notin> set evs \<Longrightarrow> distinct (completions evs)
   \<Longrightarrow> pending_ok s (completions evs) \<Longrightarrow> sched_inv (sched_run d s evs)"
proof (induction evs arbitrary: s)
  case Nil
  then show ?case by (simp add: sched_run_def)
next
  case (Cons ev evs)
  have run: "sched_run d s (ev # evs) = sched_run d (sched_step d s ev) evs"
    by (simp add: sched_run_def)
  have rest: "StopSpeaking \<notin> set evs" "distinct (completions evs)"
    using Cons.prems by (auto simp: completions_def)
  have "sched_inv (sched_step d s ev) \<and> pending_ok (sched_step d s ev) (completions evs)"
  proof (cases "completion_of ev")
    case Nil
    then have c: "completions (ev # evs) = completions evs" by (simp add: completions_def)
    from Nil Cons.prems c show ?thesis
      by (cases ev)
         (auto simp: sched_inv_playAudio sched_inv_timer pending_ok_playAudio pending_ok_timer)
  next
    case (Cons i is')
    then have ev: "sched_step d s ev = clip_finished i s"
      and c: "completions (ev # evs) = i # completions evs"
      by (cases ev; simp add: completions_def)+
    from Cons.prems(3,4) have "i \<notin> set (completions evs)"
      and p: "pending_ok s (i # completions evs)"
      by (auto simp: c)
    moreover from p have "i \<notin> clip_id ` set (started s) \<or> i \<in> set (playing s)"
      by (simp add: pending_ok_def)
    ultimately show ?thesis using Cons.prems(1)
      by (simp add: ev sched_inv_finished pending_ok_finished)
  qed
  then show ?case using Cons.IH rest by (simp add: run)
qed

lemma completions_take: "\<exists>r. completions evs = completions (take n evs) @ r"
proof -
  have "completions (take n evs @ drop n evs)
          = completions (take n evs) @ completions (drop n evs)"
    unfolding completions_def by (simp only: map_append concat_append)
  then show ?thesis by auto
qed

lemma sched_inv_initial: "sched_inv initial_scheduler"
  by (simp add: sched_inv_def initial_scheduler_def)

lemma sched_inv_le: "sched_inv s \<Longrightarrow> length (playing s) \<le> 1"
  by (auto simp: sched_inv_def split: if_splits)

text \<open>
  Non-overlap, under the condition the code relies on: if \<open>stopSpeaking\<close> is not called and
  every clip runs at most one of its three completion handlers, then after every prefix of the
  events at most one clip is playing.
\<close>

lemma at_most_one_playing:
  assumes "StopSpeaking \<notin> set evs" and "distinct (completions evs)"
  shows "length (playing (sched_run d initial_scheduler (take n evs))) \<le> 1"
proof -
  obtain r where r: "completions evs = completions (take n evs) @ r"
    using completions_take by blast
  with assms(2) have "distinct (completions (take n evs))" by simp
  moreover have "StopSpeaking \<notin> set (take n evs)"
    using assms(1) by (auto dest: in_set_takeD)
  moreover have "pending_ok initial_scheduler (completions (take n evs))"
    by (simp add: pending_ok_def initial_scheduler_def list_all_iff)
  ultimately have "sched_inv (sched_run d initial_scheduler (take n evs))"
    by (intro sched_run_inv sched_inv_initial)
  then show ?thesis by (rule sched_inv_le)
qed

text \<open>
  First in, first out, whatever the callbacks do: without \<open>stopSpeaking\<close>, the clips started so
  far followed by the clips still queued are the accepted clips in the order of their
  \<open>playAudio\<close> calls.
\<close>

lemma fifo_playNext:
  "started (playNextInQueue s) @ audioQueue (playNextInQueue s) = started s @ audioQueue s"
  "created (playNextInQueue s) = created s"
  "isMuted (playNextInQueue s) = isMuted s"
  by (auto simp: playNextInQueue_def split: list.splits)

lemma fifo_step:
  "\<not> isMuted s \<Longrightarrow> ev \<noteq> StopSpeaking \<Longrightarrow>
   started (sched_step d s ev) @ audioQueue (sched_step d s ev)
     = started s @ audioQueue s @ accepted_clips d (created s) [ev]
   \<and> created (sched_step d s ev) = created s + length (accepted_clips d (created s) [ev])
   \<and> \<not> isMuted (sched_step d s ev)"
  by (cases ev)
     (auto simp: playAudio_def processAudioQueue_def Let_def fifo_playNext clip_finished_def
        timer_fired_def split: option.splits)

lemma accepted_clips_Cons:
  "accepted_clips d n (ev # evs)
     = accepted_clips d n [ev] @ accepted_clips d (n + length (accepted_clips d n [ev])) evs"
  by (cases ev) (auto split: option.splits)

lemma fifo_order:
  "\<not> isMuted s \<Longrightarrow> StopSpeaking \<notin> set evs \<Longrightarrow>
   started (sched_run d s evs) @ audioQueue (sched_run d s evs)
     = started s @ audioQueue s @ accepted_clips d (created s) evs"
proof (induction evs arbitrary: s)
  case Nil
  then show ?case by (simp add: sched_run_def)
next
  case (Cons ev evs)
  have run: "sched_run d s (ev # evs) = sched_run d (sched_step d s ev) evs"
    by (simp add: sched_run_def)
  from Cons.prems have ev: "ev \<noteq> StopSpeaking" and rest: "StopSpeaking \<notin> set evs" by auto
  note st = fifo_step [OF Cons.prems(1) ev, of d]
  from st have "\<not> isMuted (sched_step d s ev)" by simp
  from Cons.IH [OF this rest] st show ?case
    by (simp add: run accepted_clips_Cons [of d "created s" ev evs])
qed

text \<open>
  A clip enqueued while the queue is being processed goes to the tail of the queue; the
  playing clips, the current clip and the log of started clips are untouched.
\<close>

lemma playAudio_while_processing:
  "isProcessing s \<Longrightarrow> truthy_opt a \<Longrightarrow> js_to_string_opt a = Some b64 \<Longrightarrow> d b64 \<Longrightarrow>
   playAudio d False a s
     = s\<lparr>created := created s + 1,
         audioQueue := audioQueue s @ [\<lparr>clip_id = created s, clip_data = b64\<rparr>]\<rparr>"
  by (simp add: playAudio_def Let_def)

text \<open>
  Playback runs to the end of the queue: from a scheduler in regular operation, when each
  clip ends and each timeout fires, the clips of the queue are started one after the other in
  queue order, and in the end the queue is empty and nothing is playing. A clip that fails
  (\<open>audio.onerror\<close>, or the rejection of \<open>audio.play()\<close>) continues to the next clip as one
  that ends does.
\<close>

lemma failed_clip_continues:
  "sched_step d s (Errored i) = sched_step d s (Ended i)"
  "sched_step d s (PlayRejected i) = sched_step d s (Ended i)"
  by simp_all

lemma gap_plays_out:
  assumes "isProcessing s" and "playing s = []" and "timers s = 1"
  shows "started (sched_run d s (TimerFired # play_out (map clip_id (audioQueue s))))
           = started s @ audioQueue s
         \<and> audioQueue (sched_run d s (TimerFired # play_out (map clip_id (audioQueue s)))) = []
         \<and> playing (sched_run d s (TimerFired # play_out (map clip_id (audioQueue s)))) = []"
  using assms
proof (induction "audioQueue s" arbitrary: s)
  case Nil
  then show ?case
    by (simp add: sched_run_def timer_fired_def playNextInQueue_def flip: Nil.hyps)
next
  case (Cons c rest)
  let ?s2 = "s\<lparr>audioQueue := rest, isSpeaking := True, started := started s @ [c],
               currentAudio := None, playing := [], timers := 1\<rparr>"
  have q: "audioQueue s = c # rest" using Cons.hyps(2) by simp
  have step: "sched_run d s (TimerFired # Ended (clip_id c) # evs) = sched_run d ?s2 evs" for evs
    using Cons.prems q
    by (simp add: sched_run_def timer_fired_def playNextInQueue_def clip_finished_def)
  have "rest = audioQueue ?s2" by simp
  from Cons.hyps(1) [OF this] Cons.prems
  have "started (sched_run d ?s2 (TimerFired # play_out (map clip_id rest)))
           = (started s @ [c]) @ rest
         \<and> audioQueue (sched_run d ?s2 (TimerFired # play_out (map clip_id rest))) = []
         \<and> playing (sched_run d ?s2 (TimerFired # play_out (map clip_id rest))) = []"
    by simp
  then show ?case by (simp add: q step)
qed

lemma queue_plays_out:
  assumes "regular s"
  shows "started (sched_run d s (playback s)) = started s @ audioQueue s
         \<and> audioQueue (sched_run d s (playback s)) = []
         \<and> playing (sched_run d s (playback s)) = []"
proof (cases "isProcessing s")
  case False
  with assms have "playing s = []" "timers s = 0" "audioQueue s = []"
    by (auto simp: regular_def sched_inv_def)
  then show ?thesis by (simp add: playback_def sched_run_def timer_fired_def)
next
  case True
  show ?thesis
  proof (cases "playing s")
    case Nil
    with True assms have "timers s = 1" by (simp add: regular_def sched_inv_def)
    from gap_plays_out [OF True Nil this, of d] Nil show ?thesis by (simp add: playback_def)
  next
    case (Cons i rest)
    with True assms have p: "playing s = [i]" and t: "timers s = 0"
      and i: "i \<in> clip_id ` set (started s)"
      by (auto simp: regular_def sched_inv_def)
    let ?s1 = "s\<lparr>currentAudio := None, playing := [], timers := 1\<rparr>"
    have step: "sched_run d s (Ended i # evs) = sched_run d ?s1 evs" for evs
      using p t i by (simp add: sched_run_def clip_finished_def)
    from gap_plays_out [of ?s1 d] True
    have "started (sched_run d ?s1 (TimerFired # play_out (map clip_id (audioQueue s))))
             = started s @ audioQueue s
           \<and> audioQueue (sched_run d ?s1 (TimerFired # play_out (map clip_id (audioQueue s)))) = []
           \<and> playing (sched_run d ?s1 (TimerFired # play_out (map clip_id (audioQueue s)))) = []"
      by simp
    then show ?thesis by (simp add: playback_def p step)
  qed
qed

text \<open>
  Claim C1. Non-overlap and FIFO for every sequence of \<open>playAudio\<close> calls and end/error
  callbacks. The FIFO part holds (\<open>fifo_order\<close>), and so does non-overlap when every clip runs
  one completion handler only (\<open>at_most_one_playing\<close>). But \<open>playNextInQueue\<close> attaches two
  error handlers to a clip, \<open>audio.onerror\<close> and the \<open>catch\<close> of \<open>audio.play()\<close>, and both
  schedule \<open>playNextInQueue\<close>; a clip whose data cannot be loaded runs both. With three clips
  received and the first failing that way, the two timeouts start the second and the third
  clip, which then play at the same time.
\<close>

theorem C1_two_clips_playing:
  "playing (sched_run atob_returns initial_scheduler
      [PlayAudio (Some (JStr ''AAAA'')), PlayAudio (Some (JStr ''BBBB'')),
       PlayAudio (Some (JStr ''CCCC'')), Errored 0, PlayRejected 0, TimerFired, TimerFired])
     = [1, 2]"
  by (simp add: sched_run_def initial_scheduler_def playAudio_def processAudioQueue_def
      playNextInQueue_def clip_finished_def timer_fired_def truthy_opt_def js_to_string_opt_def
      atob_returns_def is_base64_char_def Let_def)

section \<open>Properties of the event consumer\<close>

subsection \<open>Splitting at blank lines does not depend on the chunks\<close>

lemma break_sep_length:
  "break_sep sep s = Some (a, b) \<Longrightarrow> length sep \<le> length s"
  by (induction s arbitrary: a) (auto split: if_splits option.splits dest: prefix_length_le)

lemma prefix_append_long:
  "prefix sep (s @ y) \<Longrightarrow> length sep \<le> length s \<Longrightarrow> prefix sep s"
  by (metis prefix_length_prefix prefixI)

text \<open>A separator found in a text is found at the same place when more text follows.\<close>

lemma break_sep_append:
  "break_sep sep x = Some (a, b) \<Longrightarrow> break_sep sep (x @ y) = Some (a, b @ y)"
proof (induction x arbitrary: a)
  case Nil
  then show ?case by simp
next
  case (Cons c cs)
  show ?case
  proof (cases "prefix sep (c # cs)")
    case True
    then have "prefix sep ((c # cs) @ y)" by (metis prefix_prefix)
    moreover from True have len: "length sep \<le> length (c # cs)" by (rule prefix_length_le)
    moreover have "drop (length sep) ((c # cs) @ y) = drop (length sep) (c # cs) @ y"
      unfolding drop_append using len by simp
    ultimately show ?thesis using True Cons.prems by (simp del: drop_append)
  next
    case False
    with Cons.prems obtain a' where a': "break_sep sep cs = Some (a', b)" and a: "a = c # a'"
      by (auto split: option.splits)
    from a' have "length sep \<le> length cs" by (rule break_sep_length)
    with False have "\<not> prefix sep ((c # cs) @ y)"
      using prefix_append_long [of sep "c # cs" y] by auto
    with Cons.IH [OF a'] a show ?thesis by simp
  qed
qed

lemma split_str_nonempty: "sep \<noteq> [] \<Longrightarrow> split_str sep s \<noteq> []"
  by (subst split_str.simps) (auto split: option.splits)

lemma split_str_no_sep: "sep \<noteq> [] \<Longrightarrow> break_sep sep s = None \<Longrightarrow> split_str sep s = [s]"
  by (subst split_str.simps) simp

lemma split_str_sep:
  "sep \<noteq> [] \<Longrightarrow> break_sep sep s = Some (a, b) \<Longrightarrow> split_str sep s = a # split_str sep b"
  by (subst split_str.simps) simp

text \<open>
  Splitting a text that continues: the pieces closed so far stay, and the open last piece is
  split again together with the continuation.
\<close>

lemma split_str_append:
  "sep \<noteq> [] \<Longrightarrow>
   split_str sep (x @ y) = butlast (split_str sep x) @ split_str sep (last (split_str sep x) @ y)"
proof (induction sep x rule: split_str.induct)
  case (1 sep s)
  show ?case
  proof (cases "break_sep sep s")
    case None
    then show ?thesis using "1.prems" by (simp add: split_str_no_sep)
  next
    case (Some p)
    obtain a b where p: "p = (a, b)" by (cases p)
    with Some have s: "split_str sep s = a # split_str sep b"
      using "1.prems" by (simp add: split_str_sep)
    from Some p have "break_sep sep (s @ y) = Some (a, b @ y)" by (simp add: break_sep_append)
    then have "split_str sep (s @ y) = a # split_str sep (b @ y)"
      using "1.prems" by (simp add: split_str_sep)
    also have "split_str sep (b @ y)
        = butlast (split_str sep b) @ split_str sep (last (split_str sep b) @ y)"
      using "1.IH" [OF "1.prems" Some p [symmetric]] "1.prems" by simp
    finally show ?thesis
      using s split_str_nonempty [OF "1.prems", of b] by simp
  qed
qed

lemma break_sep_last:
  "sep \<noteq> [] \<Longrightarrow> break_sep sep (last (split_str sep s)) = None"
proof (induction sep s rule: split_str.induct)
  case (1 sep s)
  show ?case
  proof (cases "break_sep sep s")
    case None
    with "1.prems" show ?thesis by (simp add: split_str_no_sep)
  next
    case (Some p)
    obtain a b where p: "p = (a, b)" by (cases p)
    with Some have s: "split_str sep s = a # split_str sep b"
      using "1.prems" by (simp add: split_str_sep)
    with "1.IH" [OF "1.prems" Some p [symmetric]] "1.prems" split_str_nonempty [OF "1.prems", of b]
    show ?thesis by simp
  qed
qed

lemma dispatch_blocks_append:
  "dispatch_blocks parse sel cbs (xs @ ys) st =
     (case dispatch_blocks parse sel cbs xs st of
        Returned st' \<Rightarrow> dispatch_blocks parse sel cbs ys st'
      | Thrown st' \<Rightarrow> Thrown st')"
  by (induction xs arbitrary: st) (auto split: outcome.splits)

lemma read_stream_general:
  "break_sep blank_line buffer = None \<Longrightarrow>
   read_stream parse sel cbs buffer st chunks =
     stream_result_of (last (split_str blank_line (buffer @ concat chunks)))
       (dispatch_blocks parse sel cbs (butlast (split_str blank_line (buffer @ concat chunks))) st)"
proof (induction chunks arbitrary: buffer st)
  case Nil
  have ne: "blank_line \<noteq> []" by (simp add: blank_line_def)
  from Nil show ?case by (simp add: split_str_no_sep [OF ne] stream_result_of_def)
next
  case (Cons chunk chunks)
  have ne: "blank_line \<noteq> []" by (simp add: blank_line_def)
  let ?ev = "split_str blank_line (buffer @ chunk)"
  let ?R = "split_str blank_line (last ?ev @ concat chunks)"
  have whole: "split_str blank_line (buffer @ chunk @ concat chunks) = butlast ?ev @ ?R"
    using split_str_append [OF ne, of "buffer @ chunk" "concat chunks"] by simp
  have R: "?R \<noteq> []" by (rule split_str_nonempty [OF ne])
  have bl: "butlast (butlast ?ev @ ?R) = butlast ?ev @ butlast ?R"
    and la: "last (butlast ?ev @ ?R) = last ?R"
    using R by (simp_all add: butlast_append)
  have IH: "read_stream parse sel cbs (last ?ev) st' chunks =
     stream_result_of (last ?R) (dispatch_blocks parse sel cbs (butlast ?R) st')" for st'
    by (rule Cons.IH [OF break_sep_last [OF ne]])
  show ?case
    by (cases "dispatch_blocks parse sel cbs (butlast ?ev) st")
       (simp_all add: whole bl la dispatch_blocks_append IH Let_def stream_result_of_def)
qed

text \<open>
  A handler throws only on a text event whose content is not text and on an error event whose
  message cannot be printed; on a stream without such a frame the loop reaches the end of the
  stream.
\<close>

lemma handle_returns:
  "content_is_text event \<Longrightarrow> message_prints event \<Longrightarrow>
   \<exists>st'. handleSSEEvent sel cbs event st = Returned st'"
  by (auto simp: handleSSEEvent_def content_is_text_def message_prints_def content_of_def Let_def
      split: option.splits json.splits)

lemma dispatch_block_returns:
  "frame_is_text parse b \<Longrightarrow> \<exists>st'. dispatch_block parse sel cbs b st = Returned st'"
  using handle_returns [of _ sel cbs st]
  by (auto simp: dispatch_block_def frame_is_text_def split: option.splits)

lemma dispatch_blocks_returns:
  "list_all (frame_is_text parse) bs \<Longrightarrow> \<exists>st'. dispatch_blocks parse sel cbs bs st = Returned st'"
proof (induction bs arbitrary: st)
  case Nil
  then show ?case by simp
next
  case (Cons b bs)
  then obtain st1 where "dispatch_block parse sel cbs b st = Returned st1"
    using dispatch_block_returns [of parse b sel cbs st] by auto
  with Cons show ?case by simp
qed

lemma read_stream_reaches_end:
  assumes "list_all (frame_is_text parse) (butlast (split_str blank_line (concat chunks)))"
  shows "\<exists>st'. read_stream parse sel cbs [] st chunks
            = StreamEnd (last (split_str blank_line (concat chunks))) st'"
proof -
  obtain st' where "dispatch_blocks parse sel cbs
      (butlast (split_str blank_line (concat chunks))) st = Returned st'"
    using dispatch_blocks_returns [OF assms] by blast
  then show ?thesis
    using read_stream_general [of "[]" parse sel cbs st chunks]
    by (simp add: stream_result_of_def)
qed

text \<open>
  Claim C3. However the stream is cut into chunks, the read loop does what one pass over the
  whole stream does: the stream is split at blank lines, the pieces before the last one (the
  complete frames) are dispatched once each, in stream order, by \<open>dispatch_blocks\<close>, and the
  last piece (the incomplete frame, possibly empty) is what the buffer holds when the stream
  ends. Dispatching a frame means: skip it when it is blank or the frame parser returns no
  event, hand its event to \<open>handleSSEEvent\<close> otherwise; a handler that throws ends the loop.
  For a stream made of the producer's frames the pieces are these frames and the rest is
  empty (\<open>read_stream_rendered\<close> below).
\<close>

theorem C3_frames_reassembled_in_order:
  "read_stream parse sel cbs [] st chunks =
     stream_result_of (last (split_str blank_line (concat chunks)))
       (dispatch_blocks parse sel cbs (butlast (split_str blank_line (concat chunks))) st)"
  using read_stream_general [of "[]" parse sel cbs st chunks] by simp

text \<open>
  An example: a text frame cut twice, its closing blank line cut in the middle, an error frame
  with unparsable data, and the beginning of a frame that is never completed.
\<close>

theorem C3_frames_reassembled_in_order_witness:
  \<open>read_stream json_parse 1 (app_callbacks atob_returns False) [] (example_chats, example_scheduler)
      [''event: text\<newline>data: {"con'', ''tent":" there"}\<newline>'',
       ''\<newline>event: error\<newline>data: oops\<newline>\<newline>event: done'']
    = StreamEnd ''event: done''
        ([\<lparr>chat_id = 1,
           chat_messages =
             [\<lparr>msg_role = ''user'', msg_text = ''q'', msg_attachments = None\<rparr>,
              \<lparr>msg_role = ''assistant'', msg_text = ''Hi there\<newline>[Error: undefined]'',
                 msg_attachments = None\<rparr>]\<rparr>],
         example_scheduler)\<close>
proof -
  have s: \<open>split_str blank_line (concat
      [''event: text\<newline>data: {"con'', ''tent":" there"}\<newline>'',
       ''\<newline>event: error\<newline>data: oops\<newline>\<newline>event: done''])
    = [''event: text\<newline>data: {"content":" there"}'', ''event: error\<newline>data: oops'',
       ''event: done'']\<close>
    by (simp add: split_str.simps blank_line_def)
  have d: \<open>dispatch_blocks json_parse 1 (app_callbacks atob_returns False)
      [''event: text\<newline>data: {"content":" there"}'', ''event: error\<newline>data: oops'']
      (example_chats, example_scheduler)
    = Returned
        ([\<lparr>chat_id = 1,
           chat_messages =
             [\<lparr>msg_role = ''user'', msg_text = ''q'', msg_attachments = None\<rparr>,
              \<lparr>msg_role = ''assistant'', msg_text = ''Hi there\<newline>[Error: undefined]'',
                 msg_attachments = None\<rparr>]\<rparr>],
         example_scheduler)\<close>
    by (simp add: dispatch_block_def parseSSEEvent_def split_str.simps newline_def
        parse_line_def data_value_def trim_def is_ws_def json_parse_def is_json_ws_def Let_def
        parse_number_def unescape_def is_digit_def handleSSEEvent_def content_of_def lookup_def errorMsg_def
        js_to_string_opt_def truthy_opt_def update_selected_def update_last_def append_text_def
        example_chats_def app_callbacks_def)
  have bl: "butlast [a, b, c] = [a, b]" "last [a, b, c] = c" for a b c :: string
    by simp_all
  show ?thesis
    unfolding C3_frames_reassembled_in_order s bl d stream_result_of_def by simp
qed

subsection \<open>The frame parser\<close>

lemma parse_line_event:
  "prefix ''event:'' l \<Longrightarrow> parse_line parse st l = (trim (drop 6 l), snd st)"
  by (simp add: parse_line_def)

lemma parse_line_data:
  "prefix ''data:'' l \<Longrightarrow> parse_line parse st l = (fst st, data_value parse (trim (drop 5 l)))"
  by (auto simp: parse_line_def prefix_def)

lemma parse_line_other:
  "\<not> prefix ''event:'' l \<Longrightarrow> \<not> prefix ''data:'' l \<Longrightarrow> parse_line parse st l = st"
  by (simp add: parse_line_def)

text \<open>The loop over the lines keeps the name of the last name line and the data of the last data line.\<close>

lemma foldl_parse_line:
  "foldl (parse_line parse) (ty0, d0) ls =
     (if filter (prefix ''event:'') ls = [] then ty0
      else trim (drop 6 (last (filter (prefix ''event:'') ls))),
      if filter (prefix ''data:'') ls = [] then d0
      else data_value parse (trim (drop 5 (last (filter (prefix ''data:'') ls)))))"
proof (induction ls rule: rev_induct)
  case Nil
  then show ?case by simp
next
  case (snoc l ls)
  have step: "foldl (parse_line parse) (ty0, d0) (ls @ [l])
          = parse_line parse (foldl (parse_line parse) (ty0, d0) ls) l"
    by simp
  consider (name) "prefix ''event:'' l" "\<not> prefix ''data:'' l"
    | (data) "prefix ''data:'' l" "\<not> prefix ''event:'' l"
    | (other) "\<not> prefix ''event:'' l" "\<not> prefix ''data:'' l"
    by (auto simp: prefix_def)
  then show ?case
  proof cases
    case name
    then show ?thesis unfolding step snoc.IH by (simp add: parse_line_event)
  next
    case data
    then show ?thesis unfolding step snoc.IH by (simp add: parse_line_data)
  next
    case other
    then show ?thesis unfolding step snoc.IH by (simp add: parse_line_other)
  qed
qed

lemma parseSSEEvent_eq:
  "parseSSEEvent parse b =
     (if data_lines b = [] \<or> \<not> truthy (data_value parse (last_data b)) then None
      else Some ((''type'', JStr (declared_type b)) # spread (data_value parse (last_data b))))"
  by (simp add: parseSSEEvent_def foldl_parse_line data_lines_def name_lines_def declared_type_def
      last_data_def Let_def)

lemma parseSSEEvent_raw:
  "data_lines b \<noteq> [] \<Longrightarrow> parse (last_data b) = None \<Longrightarrow>
   parseSSEEvent parse b = Some [(''type'', JStr (declared_type b)), (''raw'', JStr (last_data b))]"
  by (simp add: parseSSEEvent_eq data_value_def)

text \<open>
  Claim C10, as stated: the frame parser returns an event if and only if the block contains a
  data line. It fails for a data line whose JSON value is falsy: \<open>if (data)\<close> tests the parsed
  value, and \<open>null\<close>, \<open>false\<close>, \<open>0\<close> and the empty string are dropped like a missing line.
\<close>

theorem C10_null_data_is_dropped:
  "data_lines ''event: text\<newline>data: null'' = [''data: null'']
   \<and> parseSSEEvent json_parse ''event: text\<newline>data: null'' = None"
  by (simp add: data_lines_def parseSSEEvent_def split_str.simps newline_def parse_line_def
      data_value_def trim_def is_ws_def json_parse_def is_json_ws_def Let_def)

text \<open>
  Claim C10, amended. The frame parser returns an event if and only if the block has a data
  line and the value of its last data line is truthy, where a text that is not valid JSON
  counts as the (truthy) wrapper \<open>{ raw: text }\<close>. A block without a data line is dropped
  whatever its name; a block whose last data line is not valid JSON is returned as an event
  of its declared type that carries the raw text.
\<close>

theorem C10_event_iff_truthy_data:
  "(parseSSEEvent parse b \<noteq> None \<longleftrightarrow>
      data_lines b \<noteq> [] \<and> (case parse (last_data b) of None \<Rightarrow> True | Some v \<Rightarrow> truthy v))
   \<and> (data_lines b = [] \<longrightarrow> parseSSEEvent parse b = None)
   \<and> (data_lines b \<noteq> [] \<and> parse (last_data b) = None \<longrightarrow>
        parseSSEEvent parse b
          = Some [(''type'', JStr (declared_type b)), (''raw'', JStr (last_data b))])"
  by (auto simp: parseSSEEvent_eq data_value_def split: option.splits)

theorem C10_event_iff_truthy_data_witness:
  "data_lines ''event: error\<newline>data: oops'' \<noteq> []
   \<and> json_parse (last_data ''event: error\<newline>data: oops'') = None
   \<and> parseSSEEvent json_parse ''event: error\<newline>data: oops''
       = Some [(''type'', JStr ''error''), (''raw'', JStr ''oops'')]
   \<and> data_lines ''event: text'' = []
   \<and> parseSSEEvent json_parse ''event: text'' = None"
proof -
  have d: "data_lines ''event: error\<newline>data: oops'' = [''data: oops'']"
    and n: "name_lines ''event: error\<newline>data: oops'' = [''event: error'']"
    and e: "data_lines ''event: text'' = []"
    by (simp_all add: data_lines_def name_lines_def split_str.simps newline_def)
  have l: "last_data ''event: error\<newline>data: oops'' = ''oops''"
    by (simp add: last_data_def d trim_def is_ws_def)
  have t: "declared_type ''event: error\<newline>data: oops'' = ''error''"
    by (simp add: declared_type_def n trim_def is_ws_def)
  have p: "json_parse ''oops'' = None"
    by (simp add: json_parse_def is_json_ws_def Let_def parse_number_def is_digit_def)
  show ?thesis
    using C10_event_iff_truthy_data [of json_parse "''event: error\<newline>data: oops''"]
      C10_event_iff_truthy_data [of json_parse "''event: text''"]
    by (simp add: d e l t p)
qed

subsection \<open>The handlers\<close>

lemma text_retained_refl: "text_retained m m"
  by (simp add: text_retained_def)

lemma list_all2_retained_refl: "list_all2 text_retained ms ms"
  by (simp add: list_all2_same text_retained_refl)

lemma chat_retained_refl: "chat_retained c c"
  by (simp add: chat_retained_def list_all2_retained_refl)

lemma chat_retained_update_last: "chat_retained c (update_last (append_text t) c)"
proof (cases "chat_messages c \<noteq> [] \<and> msg_role (last (chat_messages c)) = ''assistant''")
  case True
  then have ms: "chat_messages c = butlast (chat_messages c) @ [last (chat_messages c)]" by simp
  have "list_all2 text_retained (butlast (chat_messages c) @ [last (chat_messages c)])
          (butlast (chat_messages c) @ [append_text t (last (chat_messages c))])"
    by (intro list_all2_appendI list_all2_retained_refl)
       (simp add: text_retained_def append_text_def)
  with ms have "list_all2 text_retained (chat_messages c)
          (butlast (chat_messages c) @ [append_text t (last (chat_messages c))])"
    by simp
  with True show ?thesis by (simp add: chat_retained_def update_last_def)
next
  case False
  then show ?thesis by (auto simp: update_last_def chat_retained_refl)
qed

lemma update_selected_retained:
  "list_all2 chat_retained chats (update_selected sel (append_text t) chats)"
  unfolding update_selected_def list_all2_map2
  by (rule list_all2_refl) (simp add: chat_retained_refl chat_retained_update_last)

lemma update_selected_last_text:
  "list_all2 (\<lambda>c c'. streaming_into sel c \<longrightarrow> last_text c' = last_text c @ t)
     chats (update_selected sel (append_text t) chats)"
  unfolding update_selected_def list_all2_map2
  by (rule list_all2_refl)
     (simp add: streaming_into_def last_text_def update_last_def append_text_def)

text \<open>
  A message that is a string, or absent, can always be printed; and where the message cannot
  be printed, \<open>handleSSEEvent\<close> throws before anything is updated.
\<close>

lemma errorMsg_text:
  "lookup event ''message'' = Some (JStr m) \<Longrightarrow> errorMsg event = Some (newline @ ''[Error: '' @ m @ '']'')"
  "lookup event ''message'' = None \<Longrightarrow> errorMsg event = Some (newline @ ''[Error: undefined]'')"
  by (simp_all add: errorMsg_def js_to_string_opt_def)

lemma error_message_throws:
  "lookup event ''type'' = Some (JStr ''error'') \<Longrightarrow> errorMsg event = None \<Longrightarrow>
   handleSSEEvent sel cbs event st = Thrown st"
  by (simp add: handleSSEEvent_def Let_def)

text \<open>
  Claim C6. Handling an \<open>error\<close> event whose message can be printed returns normally; every
  chat keeps its id and its messages, every message its role, its attachments and its text
  as a prefix of the new text; the message being streamed gets the annotation
  \<open>\n[Error: message]\<close> appended to its text; and the playback scheduler is as it was, its
  queue not cleared. From the state the handler leaves, with the scheduler in regular
  operation, playback goes on: as the clips end and the timeouts fire, the clips that were
  queued before the error are started one after the other, in queue order, until the queue
  is empty.
\<close>

theorem C6_error_keeps_text_and_queue:
  assumes "lookup event ''type'' = Some (JStr ''error'')"
    and "errorMsg event = Some t"
    and "regular s"
  shows "\<exists>st'. handleSSEEvent sel cbs event (chats, s) = Returned st'
           \<and> list_all2 chat_retained chats (fst st')
           \<and> list_all2 (\<lambda>c c'. streaming_into sel c \<longrightarrow> last_text c' = last_text c @ t)
                chats (fst st')
           \<and> audioQueue (snd st') = audioQueue s
           \<and> started (sched_run d (snd st') (playback (snd st'))) = started s @ audioQueue s
           \<and> audioQueue (sched_run d (snd st') (playback (snd st'))) = []
           \<and> playing (sched_run d (snd st') (playback (snd st'))) = []"
proof -
  have "handleSSEEvent sel cbs event (chats, s)
          = Returned (update_selected sel (append_text t) chats, s)"
    using assms(1,2) by (simp add: handleSSEEvent_def Let_def)
  then show ?thesis
    using update_selected_retained [of chats sel t] update_selected_last_text [of sel t chats]
      queue_plays_out [OF assms(3), of d]
    by simp
qed

text \<open>
  An example: the error \<open>boom\<close> arrives while clip 0 is playing and clips 1 and 2 are queued.
  The annotation is appended to the text \<open>Hi\<close>, and the three clips are played in order.
\<close>

theorem C6_error_keeps_text_and_queue_witness:
  \<open>lookup [(''type'', JStr ''error''), (''message'', JStr ''boom'')] ''type'' = Some (JStr ''error'')
   \<and> errorMsg [(''type'', JStr ''error''), (''message'', JStr ''boom'')] = Some ''\<newline>[Error: boom]''
   \<and> regular example_scheduler
   \<and> streaming_into 1 (hd example_chats)
   \<and> (\<exists>st'. handleSSEEvent 1 (app_callbacks atob_returns False)
                [(''type'', JStr ''error''), (''message'', JStr ''boom'')]
                (example_chats, example_scheduler) = Returned st'
         \<and> list_all2 chat_retained example_chats (fst st')
         \<and> list_all2 (\<lambda>c c'. streaming_into 1 c \<longrightarrow>
               last_text c' = last_text c @ ''\<newline>[Error: boom]'') example_chats (fst st')
         \<and> audioQueue (snd st') = audioQueue example_scheduler
         \<and> started (sched_run atob_returns (snd st') (playback (snd st')))
             = [\<lparr>clip_id = 0, clip_data = ''AAAA''\<rparr>, \<lparr>clip_id = 1, clip_data = ''BBBB''\<rparr>,
                \<lparr>clip_id = 2, clip_data = ''CCCC''\<rparr>]
         \<and> audioQueue (sched_run atob_returns (snd st') (playback (snd st'))) = []
         \<and> playing (sched_run atob_returns (snd st') (playback (snd st'))) = [])\<close>
proof -
  have t: "lookup [(''type'', JStr ''error''), (''message'', JStr ''boom'')] ''type''
             = Some (JStr ''error'')"
    by (simp add: lookup_def)
  have m: "errorMsg [(''type'', JStr ''error''), (''message'', JStr ''boom'')]
             = Some ''\<newline>[Error: boom]''"
    by (simp add: errorMsg_def lookup_def js_to_string_opt_def newline_def)
  have r: "regular example_scheduler"
    by (simp add: regular_def sched_inv_def example_scheduler_def)
  have s: "streaming_into 1 (hd example_chats)"
    by (simp add: streaming_into_def example_chats_def)
  have q: "started example_scheduler @ audioQueue example_scheduler
             = [\<lparr>clip_id = 0, clip_data = ''AAAA''\<rparr>, \<lparr>clip_id = 1, clip_data = ''BBBB''\<rparr>,
                \<lparr>clip_id = 2, clip_data = ''CCCC''\<rparr>]"
    by (simp add: example_scheduler_def)
  from C6_error_keeps_text_and_queue [OF t m r, of 1 "app_callbacks atob_returns False"
      example_chats atob_returns]
  show ?thesis unfolding q using t m r s by blast
qed

lemma handle_unknown:
  "lookup event ''type'' \<notin> Some ` JStr ` set known_types \<Longrightarrow>
   handleSSEEvent sel cbs event st = Returned st"
  by (auto simp: handleSSEEvent_def known_types_def Let_def)

lemma lookup_raw_event:
  "lookup [(''type'', JStr ty), (''raw'', JStr d)] k =
     (if k = ''type'' then Some (JStr ty) else if k = ''raw'' then Some (JStr d) else None)"
  by (simp add: lookup_def)

text \<open>An event that carries only the raw text of its data line is handled without a throw.\<close>

lemma handle_raw_returns:
  "\<exists>st'. handleSSEEvent sel cbs [(''type'', JStr ty), (''raw'', JStr d)] st = Returned st'"
  by (simp add: handleSSEEvent_def Let_def truthy_opt_def content_of_def trim_def
      lookup_raw_event errorMsg_def js_to_string_opt_def split: option.splits)

text \<open>A block with a data line is not blank.\<close>

lemma break_sep_set:
  "break_sep sep s = Some (a, b) \<Longrightarrow> set a \<subseteq> set s \<and> set b \<subseteq> set s"
  by (induction s arbitrary: a) (auto split: if_splits option.splits dest: in_set_dropD)

lemma split_str_set:
  "sep \<noteq> [] \<Longrightarrow> l \<in> set (split_str sep s) \<Longrightarrow> set l \<subseteq> set s"
proof (induction sep s rule: split_str.induct)
  case (1 sep s)
  show ?case
  proof (cases "break_sep sep s")
    case None
    with "1.prems" show ?thesis by (simp add: split_str_no_sep)
  next
    case (Some p)
    obtain a b where p: "p = (a, b)" by (cases p)
    with Some "1.prems" have "l = a \<or> l \<in> set (split_str sep b)"
      by (simp add: split_str_sep)
    with "1.IH" [OF "1.prems"(1) Some p [symmetric] "1.prems"(1)] break_sep_set [of sep s a b] Some p
    show ?thesis by auto
  qed
qed

lemma trim_empty_all_ws: "trim s = [] \<Longrightarrow> c \<in> set s \<Longrightarrow> is_ws c"
proof -
  assume t: "trim s = []" and c: "c \<in> set s"
  from t have "dropWhile is_ws (rev (dropWhile is_ws s)) = []" by (simp add: trim_def)
  then have "\<forall>x \<in> set (dropWhile is_ws s). is_ws x" by (simp add: dropWhile_eq_Nil_conv)
  then have all: "\<forall>x \<in> set (dropWhile is_ws s). is_ws x" .
  have "dropWhile is_ws s = []"
  proof (rule ccontr)
    assume ne: "dropWhile is_ws s \<noteq> []"
    then have "\<not> is_ws (hd (dropWhile is_ws s))" by (rule hd_dropWhile)
    moreover from ne have "hd (dropWhile is_ws s) \<in> set (dropWhile is_ws s)" by simp
    ultimately show False using all by blast
  qed
  with c show "is_ws c" by (simp add: dropWhile_eq_Nil_conv)
qed

lemma data_line_not_blank: "data_lines b \<noteq> [] \<Longrightarrow> trim b \<noteq> []"
proof
  assume d: "data_lines b \<noteq> []" and t: "trim b = []"
  from d obtain l where l: "l \<in> set (split_str newline b)" and p: "prefix ''data:'' l"
    by (auto simp: data_lines_def filter_empty_conv)
  from p have "CHR ''d'' \<in> set l" by (auto simp: prefix_def)
  moreover from l have "set l \<subseteq> set b" by (intro split_str_set) (simp_all add: newline_def)
  ultimately have "is_ws (CHR ''d'')" using t by (auto dest: trim_empty_all_ws)
  then show False by (simp add: is_ws_def)
qed

text \<open>
  Claim C8, as stated: a frame whose data line is not valid JSON, and a frame whose name is
  unknown, are skipped and change no chat state. Neither holds in general. The frame
  \<open>event: error / data: oops\<close> is dispatched as an error event and appends
  \<open>[Error: undefined]\<close> to the message; the frame \<open>event: foo\<close> whose data has a \<open>type\<close> member
  \<open>text\<close> is handled as a text event, since the members of the data are spread over the
  declared type.
\<close>

theorem C8_unparsed_frame_is_dispatched:
  \<open>json_parse ''oops'' = None
   \<and> dispatch_block json_parse 1 (app_callbacks atob_returns False) ''event: error\<newline>data: oops''
        (example_chats, example_scheduler)
      = Returned
          ([\<lparr>chat_id = 1,
             chat_messages =
               [\<lparr>msg_role = ''user'', msg_text = ''q'', msg_attachments = None\<rparr>,
                \<lparr>msg_role = ''assistant'', msg_text = ''Hi\<newline>[Error: undefined]'',
                   msg_attachments = None\<rparr>]\<rparr>],
           example_scheduler)
   \<and> dispatch_block json_parse 1 (app_callbacks atob_returns False)
        ''event: foo\<newline>data: {"type":"text","content":"!"}''
        (example_chats, example_scheduler)
      = Returned
          ([\<lparr>chat_id = 1,
             chat_messages =
               [\<lparr>msg_role = ''user'', msg_text = ''q'', msg_attachments = None\<rparr>,
                \<lparr>msg_role = ''assistant'', msg_text = ''Hi!'', msg_attachments = None\<rparr>]\<rparr>],
           example_scheduler)\<close>
  by (simp add: dispatch_block_def parseSSEEvent_def split_str.simps newline_def parse_line_def
      data_value_def trim_def is_ws_def json_parse_def is_json_ws_def Let_def parse_number_def
      unescape_def is_digit_def handleSSEEvent_def content_of_def lookup_def errorMsg_def js_to_string_opt_def
      truthy_opt_def update_selected_def update_last_def append_text_def example_chats_def
      app_callbacks_def)

lemma lookup_Cons:
  "lookup (kv # kvs) k =
     (case lookup kvs k of Some v \<Rightarrow> Some v | None \<Rightarrow> if fst kv = k then Some (snd kv) else None)"
  by (cases kv) (auto simp: lookup_def map_add_def split: option.splits)

text \<open>A frame with an unknown name whose data has no \<open>type\<close> of its own changes nothing.\<close>

lemma dispatch_unknown_name:
  assumes "declared_type b \<notin> set known_types"
    and "lookup (spread (data_value parse (last_data b))) ''type'' = None"
  shows "dispatch_block parse sel cbs b st = Returned st"
proof (cases "parseSSEEvent parse b")
  case None
  then show ?thesis by (simp add: dispatch_block_def)
next
  case (Some event)
  then have "event = (''type'', JStr (declared_type b)) # spread (data_value parse (last_data b))"
    by (simp add: parseSSEEvent_eq split: if_splits)
  with assms have "lookup event ''type'' = Some (JStr (declared_type b))"
    by (simp add: lookup_Cons)
  with assms(1) have "lookup event ''type'' \<notin> Some ` JStr ` set known_types"
    by auto
  then have "handleSSEEvent sel cbs event st = Returned st" by (rule handle_unknown)
  with Some show ?thesis by (simp add: dispatch_block_def)
qed

text \<open>
  Claim C8, amended. An event whose type is not one of the known types is skipped: handling
  it returns normally and changes nothing; so is a frame whose name is not a known type,
  provided its data has no \<open>type\<close> member of its own. A frame whose last data line is not
  valid JSON is not skipped: it is dispatched as the event of its declared type that carries
  only the raw text; handling that event never throws, so the loop goes on with the frames
  after it.
\<close>

theorem C8_unknown_skipped_unparsed_handled:
  "(lookup event ''type'' \<notin> Some ` JStr ` set known_types \<longrightarrow>
      handleSSEEvent sel cbs event st = Returned st)
   \<and> (declared_type b \<notin> set known_types
        \<and> lookup (spread (data_value parse (last_data b))) ''type'' = None \<longrightarrow>
      dispatch_block parse sel cbs b st = Returned st)
   \<and> (data_lines b \<noteq> [] \<and> parse (last_data b) = None \<longrightarrow>
        (\<exists>st'. handleSSEEvent sel cbs
                  [(''type'', JStr (declared_type b)), (''raw'', JStr (last_data b))] st
                  = Returned st'
               \<and> dispatch_block parse sel cbs b st = Returned st'
               \<and> dispatch_blocks parse sel cbs (b # bs) st = dispatch_blocks parse sel cbs bs st'))"
proof (intro conjI impI)
  assume "lookup event ''type'' \<notin> Some ` JStr ` set known_types"
  then show "handleSSEEvent sel cbs event st = Returned st" by (rule handle_unknown)
next
  assume "declared_type b \<notin> set known_types
    \<and> lookup (spread (data_value parse (last_data b))) ''type'' = None"
  then show "dispatch_block parse sel cbs b st = Returned st"
    by (simp add: dispatch_unknown_name)
next
  assume a: "data_lines b \<noteq> [] \<and> parse (last_data b) = None"
  let ?ev = "[(''type'', JStr (declared_type b)), (''raw'', JStr (last_data b))]"
  obtain st' where h: "handleSSEEvent sel cbs ?ev st = Returned st'"
    using handle_raw_returns by blast
  from a have "parseSSEEvent parse b = Some ?ev" by (simp add: parseSSEEvent_raw)
  moreover from a have "trim b \<noteq> []" by (simp add: data_line_not_blank)
  ultimately have d: "dispatch_block parse sel cbs b st = Returned st'"
    using h by (simp add: dispatch_block_def)
  then have "dispatch_blocks parse sel cbs (b # bs) st = dispatch_blocks parse sel cbs bs st'"
    by simp
  with h d show "\<exists>st'. handleSSEEvent sel cbs ?ev st = Returned st'
      \<and> dispatch_block parse sel cbs b st = Returned st'
      \<and> dispatch_blocks parse sel cbs (b # bs) st = dispatch_blocks parse sel cbs bs st'"
    by blast
qed

theorem C8_unknown_skipped_unparsed_handled_witness:
  \<open>lookup [(''type'', JStr ''ping'')] ''type'' \<notin> Some ` JStr ` set known_types
   \<and> handleSSEEvent 1 (app_callbacks atob_returns False) [(''type'', JStr ''ping'')]
        (example_chats, example_scheduler) = Returned (example_chats, example_scheduler)
   \<and> declared_type ''event: ping\<newline>data: {"content":"!"}'' \<notin> set known_types
   \<and> dispatch_block json_parse 1 (app_callbacks atob_returns False)
        ''event: ping\<newline>data: {"content":"!"}'' (example_chats, example_scheduler)
       = Returned (example_chats, example_scheduler)
   \<and> data_lines ''event: text\<newline>data: oops'' \<noteq> []
   \<and> json_parse (last_data ''event: text\<newline>data: oops'') = None
   \<and> (\<exists>st'. dispatch_block json_parse 1 (app_callbacks atob_returns False)
               ''event: text\<newline>data: oops'' (example_chats, example_scheduler) = Returned st'
         \<and> dispatch_blocks json_parse 1 (app_callbacks atob_returns False)
               [''event: text\<newline>data: oops'', ''event: text\<newline>data: {"content":"!"}'']
               (example_chats, example_scheduler)
             = dispatch_blocks json_parse 1 (app_callbacks atob_returns False)
                 [''event: text\<newline>data: {"content":"!"}''] st')\<close>
proof -
  have u: "lookup [(''type'', JStr ''ping'')] ''type'' \<notin> Some ` JStr ` set known_types"
    by (simp add: lookup_def known_types_def)
  have d: "data_lines ''event: text\<newline>data: oops'' = [''data: oops'']"
    by (simp add: data_lines_def split_str.simps newline_def)
  have l: "last_data ''event: text\<newline>data: oops'' = ''oops''"
    by (simp add: last_data_def d trim_def is_ws_def)
  have p: "json_parse ''oops'' = None"
    by (simp add: json_parse_def is_json_ws_def Let_def parse_number_def is_digit_def)
  have n: \<open>declared_type ''event: ping\<newline>data: {"content":"!"}'' = ''ping''\<close>
    by (simp add: declared_type_def name_lines_def split_str.simps newline_def trim_def
        is_ws_def)
  have k: "''ping'' \<notin> set known_types"
    by (simp add: known_types_def)
  have v: \<open>lookup (spread (data_value json_parse (last_data ''event: ping\<newline>data: {"content":"!"}'')))
      ''type'' = None\<close>
    by (simp add: last_data_def data_lines_def split_str.simps newline_def trim_def is_ws_def
        data_value_def json_parse_def is_json_ws_def Let_def parse_number_def unescape_def
        is_digit_def lookup_def)
  note th = C8_unknown_skipped_unparsed_handled [of "[(''type'', JStr ''ping'')]" 1
      "app_callbacks atob_returns False" "(example_chats, example_scheduler)"
      _ json_parse _]
  from th u have "handleSSEEvent 1 (app_callbacks atob_returns False) [(''type'', JStr ''ping'')]
        (example_chats, example_scheduler) = Returned (example_chats, example_scheduler)"
    by blast
  moreover from th [of \<open>''event: ping\<newline>data: {"content":"!"}''\<close>] n k v
  have \<open>dispatch_block json_parse 1 (app_callbacks atob_returns False)
        ''event: ping\<newline>data: {"content":"!"}'' (example_chats, example_scheduler)
       = Returned (example_chats, example_scheduler)\<close>
    by simp
  moreover from th [of "''event: text\<newline>data: oops''"
      \<open>[''event: text\<newline>data: {"content":"!"}'']\<close>] d l p
  have \<open>\<exists>st'. dispatch_block json_parse 1 (app_callbacks atob_returns False)
               ''event: text\<newline>data: oops'' (example_chats, example_scheduler) = Returned st'
         \<and> dispatch_blocks json_parse 1 (app_callbacks atob_returns False)
               [''event: text\<newline>data: oops'', ''event: text\<newline>data: {"content":"!"}'']
               (example_chats, example_scheduler)
             = dispatch_blocks json_parse 1 (app_callbacks atob_returns False)
                 [''event: text\<newline>data: {"content":"!"}''] st'\<close>
    by auto
  ultimately show ?thesis using u d l p n k by simp
qed

subsection \<open>The frames of the producer\<close>

text \<open>
  The frames of the producer come back as they were sent: a stream made of rendered frames
  splits into the bodies of these frames and an empty rest.
\<close>

lemma break_sep_tight:
  "tight b \<Longrightarrow> break_sep blank_line (b @ blank_line @ r) = Some (b, r)"
  by (induction b rule: tight.induct) (auto simp: blank_line_def)

lemma tight_single_line: "single_line s \<Longrightarrow> tight s"
  by (induction s rule: tight.induct) (auto simp: single_line_def)

lemma tight_two_lines:
  "single_line a \<Longrightarrow> single_line b \<Longrightarrow> b \<noteq> [] \<Longrightarrow> tight (a @ newline @ b)"
proof (induction a rule: tight.induct)
  case 1
  then show ?case
    using tight_single_line [of b] by (cases b) (auto simp: newline_def single_line_def)
next
  case (2 c)
  then show ?case
    using tight_single_line [of b] by (cases b) (auto simp: newline_def single_line_def)
next
  case (3 c d cs)
  then show ?case by (auto simp: single_line_def)
qed

lemma tight_frame_body:
  assumes "single_line (fst f)" and "single_line (snd f)"
  shows "tight (frame_body f)"
proof -
  have "tight ((''event: '' @ fst f) @ newline @ (''data: '' @ snd f))"
    using assms by (intro tight_two_lines) (auto simp: single_line_def)
  then show ?thesis by (simp add: frame_body_def)
qed

lemma split_rendered:
  "well_framed fs \<Longrightarrow>
   split_str blank_line (concat (map render_frame fs)) = map frame_body fs @ [[]]"
proof (induction fs)
  case Nil
  show ?case by (simp add: split_str.simps blank_line_def)
next
  case (Cons f fs)
  have ne: "blank_line \<noteq> []" by (simp add: blank_line_def)
  from Cons.prems have "tight (frame_body f)" by (simp add: tight_frame_body well_framed_def)
  then have "break_sep blank_line (frame_body f @ blank_line @ concat (map render_frame fs))
      = Some (frame_body f, concat (map render_frame fs))"
    by (rule break_sep_tight)
  then have "split_str blank_line (concat (map render_frame (f # fs)))
      = frame_body f # split_str blank_line (concat (map render_frame fs))"
    using split_str_sep [OF ne] by (simp add: render_frame_def)
  with Cons show ?case by (simp add: well_framed_def)
qed

lemma break_sep_newline_none: "single_line s \<Longrightarrow> break_sep newline s = None"
  by (induction s) (auto simp: single_line_def newline_def)

lemma break_sep_newline_some:
  "single_line a \<Longrightarrow> break_sep newline (a @ newline @ b) = Some (a, b)"
  by (induction a) (auto simp: single_line_def newline_def)

lemma frame_body_lines:
  assumes "single_line (fst f)" and "single_line (snd f)"
  shows "split_str newline (frame_body f) = [''event: '' @ fst f, ''data: '' @ snd f]"
proof -
  have ne: "newline \<noteq> []" by (simp add: newline_def)
  have a: "single_line (''event: '' @ fst f)" and b: "single_line (''data: '' @ snd f)"
    using assms by (auto simp: single_line_def)
  have "split_str newline ((''event: '' @ fst f) @ newline @ (''data: '' @ snd f))
      = (''event: '' @ fst f) # split_str newline (''data: '' @ snd f)"
    using split_str_sep [OF ne break_sep_newline_some [OF a]] by simp
  also have "split_str newline (''data: '' @ snd f) = [''data: '' @ snd f]"
    using split_str_no_sep [OF ne break_sep_newline_none [OF b]] by simp
  finally show ?thesis by (simp add: frame_body_def)
qed

lemma trim_space: "trim (CHR '' '' # s) = trim s"
  by (simp add: trim_def is_ws_def)

lemma trim_frame_body: "trim (frame_body f) \<noteq> []"
proof
  assume "trim (frame_body f) = []"
  moreover have "CHR ''e'' \<in> set (frame_body f)" by (simp add: frame_body_def)
  ultimately have "is_ws (CHR ''e'')" by (rule trim_empty_all_ws)
  then show False by (simp add: is_ws_def)
qed

lemma parse_frame_body:
  "single_line (fst f) \<Longrightarrow> single_line (snd f) \<Longrightarrow>
   parseSSEEvent parse (frame_body f) = frame_event parse f"
  by (simp add: parseSSEEvent_def frame_body_lines parse_line_def trim_space frame_event_def
      Let_def)

lemma dispatch_rendered:
  "well_framed fs \<Longrightarrow>
   dispatch_blocks parse sel cbs (map frame_body fs) st
     = handle_events sel cbs (List.map_filter (frame_event parse) fs) st"
proof (induction fs arbitrary: st)
  case Nil
  show ?case by (simp add: List.map_filter_simps)
next
  case (Cons f fs)
  from Cons.prems have f: "single_line (fst f)" "single_line (snd f)" and fs: "well_framed fs"
    by (simp_all add: well_framed_def)
  show ?case
  proof (cases "frame_event parse f")
    case None
    then show ?thesis
      using Cons.IH [OF fs]
      by (simp add: dispatch_block_def trim_frame_body parse_frame_body [OF f]
          List.map_filter_simps)
  next
    case (Some event)
    then show ?thesis
      using Cons.IH [OF fs]
      by (simp add: dispatch_block_def trim_frame_body parse_frame_body [OF f]
          List.map_filter_simps split: outcome.splits)
  qed
qed

text \<open>
  So, for the framed stream of the producer cut into chunks in any way, the read loop hands
  the events of the frames to the handlers, once each and in the order sent, and ends with an
  empty buffer.
\<close>

lemma read_stream_rendered:
  assumes "well_framed fs" and "concat chunks = concat (map render_frame fs)"
  shows "read_stream parse sel cbs [] st chunks
           = stream_result_of []
               (handle_events sel cbs (List.map_filter (frame_event parse) fs) st)"
  using read_stream_general [of "[]" parse sel cbs st chunks] split_rendered [OF assms(1)]
    dispatch_rendered [OF assms(1), of parse sel cbs st] assms(2)
  by simp

subsection \<open>Muted playback\<close>

text \<open>
  A \<open>playAudio\<close> whose own \<open>isMuted\<close> is true, and any \<open>playAudio\<close> called with data that is
  absent or falsy, returns the state as it is, so whatever happens later happens as it would
  have without the call.
\<close>

lemma playAudio_discards:
  "muted \<or> \<not> truthy_opt a \<Longrightarrow>
   playAudio decodes muted a s = s
   \<and> sched_run decodes (playAudio decodes muted a s) evs = sched_run decodes s evs"
  by (auto simp: playAudio_def)

text \<open>
  Claim C9. \<open>playAudio\<close> called while the scheduler is muted changes nothing, and the audio is
  never enqueued or played. The test \<open>if (isMuted) return\<close> is there for it, but it reads the
  \<open>isMuted\<close> of the render that built the function (\<open>useCallback(..., [isMuted])\<close>), and the
  stream that is being read calls the \<open>playAudio\<close> of the render in which the message was
  sent: \<open>sendMessage\<close> keeps the \<open>onAudioEvent\<close> it was built with, and that one the
  \<open>voiceHook\<close> of its render. So when the scheduler is muted while a response is streaming
  (clip 0 is playing and \<open>stopSpeaking\<close> is called, as \<open>handleTTSModeChange\<close> does), the next
  audio event of the stream goes to a \<open>playAudio\<close> whose \<open>isMuted\<close> is false: the clip is
  queued, started and played by the muted scheduler.
\<close>

theorem C9_stale_playAudio_plays_while_muted:
  "isMuted (sched_run atob_returns initial_scheduler [PlayAudio (Some (JStr ''AAAA'')), StopSpeaking])
   \<and> playing (sched_run atob_returns initial_scheduler
        [PlayAudio (Some (JStr ''AAAA'')), StopSpeaking]) = []
   \<and> isMuted (playAudio atob_returns False (Some (JStr ''BBBB''))
        (sched_run atob_returns initial_scheduler [PlayAudio (Some (JStr ''AAAA'')), StopSpeaking]))
   \<and> playing (playAudio atob_returns False (Some (JStr ''BBBB''))
        (sched_run atob_returns initial_scheduler [PlayAudio (Some (JStr ''AAAA'')), StopSpeaking]))
       = [1]
   \<and> started (playAudio atob_returns False (Some (JStr ''BBBB''))
        (sched_run atob_returns initial_scheduler [PlayAudio (Some (JStr ''AAAA'')), StopSpeaking]))
       = [\<lparr>clip_id = 0, clip_data = ''AAAA''\<rparr>, \<lparr>clip_id = 1, clip_data = ''BBBB''\<rparr>]
   \<and> handleSSEEvent 1 (app_callbacks atob_returns False)
        [(''type'', JStr ''audio''), (''audio_base64'', JStr ''BBBB'')]
        (example_chats,
         sched_run atob_returns initial_scheduler [PlayAudio (Some (JStr ''AAAA'')), StopSpeaking])
       = Returned
           (example_chats,
            playAudio atob_returns False (Some (JStr ''BBBB''))
              (sched_run atob_returns initial_scheduler
                 [PlayAudio (Some (JStr ''AAAA'')), StopSpeaking]))"
  by (simp add: sched_run_def initial_scheduler_def playAudio_def processAudioQueue_def
      playNextInQueue_def stopSpeaking_def truthy_opt_def js_to_string_opt_def atob_returns_def
      is_base64_char_def Let_def handleSSEEvent_def app_callbacks_def lookup_def)

section \<open>Properties of the payload scan\<close>

text \<open>
  Claim C2. Every structured payload is emitted exactly once, however the text is cut into
  fragments and however often the growing buffer is scanned again. The tool loop keeps a set
  of the texts it has attached and passes over them; the event loop keeps none and attaches
  every marker of the buffer on every scan. A marker received in the first fragment is
  attached once after it, and a second time when the next fragment arrives.
\<close>

theorem C2_event_marker_attached_twice:
  \<open>shown_attachments (stream_fragments json_parse 1 (stream_start example_chats)
      [''[EVENT]{"type":"molecule","name":"water","smiles":"O"}\<newline>''])
     = Some [molecule (Some (JStr ''water'')) (Some (JStr ''O''))]
   \<and> shown_attachments (stream_fragments json_parse 1 (stream_start example_chats)
      [''[EVENT]{"type":"molecule","name":"water","smiles":"O"}\<newline>'', ''Done.''])
     = Some [molecule (Some (JStr ''water'')) (Some (JStr ''O'')),
             molecule (Some (JStr ''water'')) (Some (JStr ''O''))]\<close>
  by (simp add: shown_attachments_def stream_fragments_def stream_start_def on_fragment_def
      processStreamChunk_def process_matches_def tool_matches_def event_matches_def
      match_tool_def match_event_def match_event_line_def fence_def newline_def
      event_step_def payload_attachments_def lookup_def truthy_opt_def molecule_def
      update_selected_def update_last_def append_attachments_def append_text_def
      example_chats_def json_parse_def is_json_ws_def Let_def parse_number_def unescape_def
      is_digit_def)

text \<open>
  The tool loop attaches a block once: a block that changed the state is recorded as seen,
  and a block that is recorded as seen changes nothing, in this scan and in every later one.
\<close>

lemma tool_step_records:
  "tool_step parse sel st m \<noteq> st \<Longrightarrow> fst m \<in> set (fst (tool_step parse sel st m) sel)"
  by (auto simp: tool_step_def Let_def split: option.splits if_splits)

lemma tool_step_seen:
  "fst m \<in> set (fst st sel) \<Longrightarrow> tool_step parse sel st m = st"
  by (simp add: tool_step_def Let_def)

lemma tool_step_keeps_seen:
  "x \<in> set (fst st c) \<Longrightarrow> x \<in> set (fst (tool_step parse sel st m) c)"
  by (auto simp: tool_step_def Let_def split: option.splits)

lemma foldl_skip:
  "(\<And>a x. \<not> P x \<Longrightarrow> f a x = a) \<Longrightarrow> foldl f a xs = foldl f a (filter P xs)"
  by (induction xs arbitrary: a) auto

lemma tool_step_failed: "parse (snd m) = None \<Longrightarrow> tool_step parse sel st m = st"
  by (simp add: tool_step_def Let_def)

lemma event_step_failed: "parse (snd m) = None \<Longrightarrow> event_step parse sel chats m = chats"
  by (simp add: event_step_def)

text \<open>
  Claim C7. A structured payload that fails to parse is dropped without a trace, never shown
  as prose, and every later well-formed payload of the response is still emitted. The \<open>try\<close>
  around the body of each loop is there for it (\<open>failed_match_is_passed_over\<close> below), and the
  fences and markers are stripped from the visible text. Both miss cases. A tool block whose
  closing brace is missing is matched by the tool expression together with everything up to
  the closing brace and fence of the next block: the two blocks are one match, which does
  not parse, and the well-formed second block, attached when it stands alone, is never
  attached. And fences and markers are removed from each fragment on its own, so a payload
  that arrives in two fragments stays in the visible text.
\<close>

theorem C7_malformed_payload_not_isolated:
  \<open>tool_matches ''```{"tool":"draw_molecule","name":"benzene"``` ```{"tool":"draw_molecule","name":"water"}```''
     = [(''```{"tool":"draw_molecule","name":"benzene"``` ```{"tool":"draw_molecule","name":"water"}```'',
         ''{"tool":"draw_molecule","name":"benzene"``` ```{"tool":"draw_molecule","name":"water"}'')]
   \<and> json_parse ''{"tool":"draw_molecule","name":"benzene"``` ```{"tool":"draw_molecule","name":"water"}''
       = None
   \<and> shown_attachments (stream_fragments json_parse 1 (stream_start example_chats)
        [''```{"tool":"draw_molecule","name":"benzene"``` ```{"tool":"draw_molecule","name":"water"}```''])
       = None
   \<and> shown_attachments (stream_fragments json_parse 1 (stream_start example_chats)
        [''```{"tool":"draw_molecule","name":"water"}```''])
       = Some [molecule (Some (JStr ''water'')) None]
   \<and> shown_text (stream_fragments json_parse 1 (stream_start example_chats)
        [''```{"tool":'', '' oops}```'']) = ''Hi```{"tool": oops}```''\<close>
  by (simp add: shown_attachments_def shown_text_def last_text_def stream_fragments_def
      stream_start_def on_fragment_def processStreamChunk_def process_matches_def
      tool_matches_def event_matches_def match_tool_def match_event_def match_event_line_def
      fence_def tool_key_def contains_def newline_def is_ws_def tool_step_def
      payload_attachments_def lookup_def truthy_opt_def molecule_def
      update_selected_def update_last_def append_text_def append_attachments_def
      example_chats_def json_parse_def is_json_ws_def Let_def parse_number_def unescape_def
      is_digit_def)

text \<open>
  The same happens to event markers: the event expression runs to the last closing brace of
  the line, so two markers on one line are one match, and a first marker that does not parse
  takes the second with it.
\<close>

lemma markers_on_one_line:
  \<open>event_matches ''[EVENT]{bad}[EVENT]{"type":"molecule","name":"water"}''
     = [(''[EVENT]{bad}[EVENT]{"type":"molecule","name":"water"}'',
         ''{bad}[EVENT]{"type":"molecule","name":"water"}'')]
   \<and> json_parse ''{bad}[EVENT]{"type":"molecule","name":"water"}'' = None
   \<and> shown_attachments (stream_fragments json_parse 1 (stream_start example_chats)
        [''[EVENT]{bad}[EVENT]{"type":"molecule","name":"water"}'']) = None\<close>
  by (simp add: shown_attachments_def stream_fragments_def stream_start_def on_fragment_def
      processStreamChunk_def process_matches_def tool_matches_def event_matches_def
      match_tool_def match_event_def match_event_line_def fence_def newline_def
      event_step_def update_selected_def update_last_def append_text_def
      example_chats_def json_parse_def is_json_ws_def Let_def parse_number_def unescape_def
      is_digit_def)

text \<open>
  What the \<open>try\<close> around each loop body achieves: a match of one of the two expressions that
  fails to parse leaves no trace in either loop, nothing is attached for it and its text is
  not recorded as seen (so a later scan parses it again), and the loops go on with the
  matches behind it. Scanning a buffer gives what the loops give on the matches that parse.
\<close>

lemma failed_match_is_passed_over:
  "(parse (snd m) = None \<longrightarrow>
      tool_step parse sel st m = st \<and> event_step parse sel chats m = chats)
   \<and> processStreamChunk parse buffer sel s
       = process_matches parse sel
           (filter (\<lambda>m. parse (snd m) \<noteq> None) (tool_matches buffer))
           (filter (\<lambda>m. parse (snd m) \<noteq> None) (event_matches buffer)) s"
proof -
  have t: "foldl (tool_step parse sel) a ms
             = foldl (tool_step parse sel) a (filter (\<lambda>m. parse (snd m) \<noteq> None) ms)" for a ms
    by (rule foldl_skip) (simp add: tool_step_failed)
  have e: "foldl (event_step parse sel) a ms
             = foldl (event_step parse sel) a (filter (\<lambda>m. parse (snd m) \<noteq> None) ms)" for a ms
    by (rule foldl_skip) (simp add: event_step_failed)
  have "processStreamChunk parse buffer sel s
       = process_matches parse sel
           (filter (\<lambda>m. parse (snd m) \<noteq> None) (tool_matches buffer))
           (filter (\<lambda>m. parse (snd m) \<noteq> None) (event_matches buffer)) s"
    unfolding processStreamChunk_def process_matches_def
    using t [of "(snd s, [])" "tool_matches buffer"] e [of _ "event_matches buffer"]
    by (simp add: Let_def)
  then show ?thesis by (simp add: tool_step_failed event_step_failed)
qed

text \<open>
  An example: a tool block and an event marker that do not parse but are closed, each
  followed by one that does. Both later payloads are attached.
\<close>

lemma failed_match_example:
  \<open>json_parse ''{"tool": oops}'' = None
   \<and> tool_step json_parse 1 ((\<lambda>c. []), []) (''```{"tool": oops}```'', ''{"tool": oops}'')
       = ((\<lambda>c. []), [])
   \<and> event_step json_parse 1 example_chats (''```{"tool": oops}```'', ''{"tool": oops}'')
       = example_chats
   \<and> fst (processStreamChunk json_parse
        ''```{"tool": oops}``` ```{"tool":"draw_molecule","name":"w"}```\<newline>[EVENT]{bad}\<newline>[EVENT]{"type":"molecule","name":"water"}''
        1 (example_chats, (\<lambda>c. [])))
     = [\<lparr>chat_id = 1,
         chat_messages =
           [\<lparr>msg_role = ''user'', msg_text = ''q'', msg_attachments = None\<rparr>,
            \<lparr>msg_role = ''assistant'', msg_text = ''Hi'',
               msg_attachments = Some [molecule (Some (JStr ''w'')) None,
                                       molecule (Some (JStr ''water'')) None]\<rparr>]\<rparr>]\<close>
proof -
  let ?B = \<open>''```{"tool": oops}``` ```{"tool":"draw_molecule","name":"w"}```\<newline>[EVENT]{bad}\<newline>[EVENT]{"type":"molecule","name":"water"}''\<close>
  have p: \<open>json_parse (snd (''```{"tool": oops}```'', ''{"tool": oops}'')) = None\<close>
    by (simp add: json_parse_def is_json_ws_def Let_def parse_number_def unescape_def
        is_digit_def)
  have tm: \<open>filter (\<lambda>m. json_parse (snd m) \<noteq> None) (tool_matches ?B)
      = [(''```{"tool":"draw_molecule","name":"w"}```'', ''{"tool":"draw_molecule","name":"w"}'')]\<close>
    by (simp add: tool_matches_def match_tool_def fence_def tool_key_def contains_def is_ws_def
        json_parse_def is_json_ws_def Let_def parse_number_def unescape_def is_digit_def)
  have em: \<open>filter (\<lambda>m. json_parse (snd m) \<noteq> None) (event_matches ?B)
      = [(''[EVENT]{"type":"molecule","name":"water"}'', ''{"type":"molecule","name":"water"}'')]\<close>
    by (simp add: event_matches_def match_event_def
        json_parse_def is_json_ws_def Let_def parse_number_def unescape_def is_digit_def)
  have r: \<open>fst (process_matches json_parse 1
      [(''```{"tool":"draw_molecule","name":"w"}```'', ''{"tool":"draw_molecule","name":"w"}'')]
      [(''[EVENT]{"type":"molecule","name":"water"}'', ''{"type":"molecule","name":"water"}'')]
      (example_chats, (\<lambda>c. [])))
     = [\<lparr>chat_id = 1,
         chat_messages =
           [\<lparr>msg_role = ''user'', msg_text = ''q'', msg_attachments = None\<rparr>,
            \<lparr>msg_role = ''assistant'', msg_text = ''Hi'',
               msg_attachments = Some [molecule (Some (JStr ''w'')) None,
                                       molecule (Some (JStr ''water'')) None]\<rparr>]\<rparr>]\<close>
    by (simp add: process_matches_def tool_step_def event_step_def payload_attachments_def
        lookup_def truthy_opt_def update_selected_def update_last_def append_attachments_def
        example_chats_def json_parse_def is_json_ws_def Let_def parse_number_def unescape_def
        is_digit_def)
  note th = failed_match_is_passed_over [of json_parse
      \<open>(''```{"tool": oops}```'', ''{"tool": oops}'')\<close> 1 "((\<lambda>c. []), [])" example_chats ?B
      "(example_chats, (\<lambda>c. []))"]
  from th p have \<open>tool_step json_parse 1 ((\<lambda>c. []), []) (''```{"tool": oops}```'', ''{"tool": oops}'')
       = ((\<lambda>c. []), [])\<close>
    and \<open>event_step json_parse 1 example_chats (''```{"tool": oops}```'', ''{"tool": oops}'')
       = example_chats\<close>
    by blast+
  moreover from th have "fst (processStreamChunk json_parse ?B 1 (example_chats, (\<lambda>c. [])))
      = fst (process_matches json_parse 1
          (filter (\<lambda>m. json_parse (snd m) \<noteq> None) (tool_matches ?B))
          (filter (\<lambda>m. json_parse (snd m) \<noteq> None) (event_matches ?B))
          (example_chats, (\<lambda>c. [])))"
    by simp
  ultimately show ?thesis using p unfolding tm em r by simp
qed

end
